theory Spec2Isabelle
  imports Main "HOL-Library.Word"
begin

unbundle bit_operations_syntax

section \<open>The K3 EIP76D TRNG driver (core/arch/arm/plat-k3/drivers/eip76d_trng.c)\<close>

text \<open>
  The driver talks to the device only through \<open>io_read32\<close> and \<open>io_write32\<close>. The
  embedding is sequential (the mutex around each byte of \<open>hw_get_random_bytes\<close> is a
  no-op for a single caller) and passes one state record through every function.
\<close>

subsection \<open>Machine types and the register map\<close>

type_synonym u8 = "8 word"
type_synonym u32 = "32 word"
type_synonym vaddr_t = "64 word"

text \<open>
  Modelled from the spec: the macros \<open>BIT\<close> and \<open>GENMASK_32\<close> come from util.h,
  which is not among the sources. \<open>BIT(n)\<close> is the 32-bit value with only bit \<open>n\<close> set
  and \<open>GENMASK_32(h, l)\<close> has exactly the bits \<open>l..h\<close> set (section 4.1 of the
  specification gives READY as bit 0, SHUTDOWN_OFLO as bit 1, ENABLE as bit 10 and the
  FRO mask as 0x00FFFFFF).
\<close>

definition BIT :: "nat \<Rightarrow> u32" where
  "BIT nr = push_bit nr 1"

definition GENMASK_32 :: "nat \<Rightarrow> nat \<Rightarrow> u32" where
  "GENMASK_32 h l = push_bit l (NOT 0) AND drop_bit (32 - 1 - h) (NOT 0)"

definition RNG_OUTPUT_0 :: vaddr_t where "RNG_OUTPUT_0 = 0x00"
definition RNG_OUTPUT_1 :: vaddr_t where "RNG_OUTPUT_1 = 0x04"
definition RNG_OUTPUT_2 :: vaddr_t where "RNG_OUTPUT_2 = 0x08"
definition RNG_OUTPUT_3 :: vaddr_t where "RNG_OUTPUT_3 = 0x0C"
definition RNG_STATUS :: vaddr_t where "RNG_STATUS = 0x10"
definition RNG_READY :: u32 where "RNG_READY = BIT 0"
definition SHUTDOWN_OFLO :: u32 where "SHUTDOWN_OFLO = BIT 1"
definition RNG_INTACK :: vaddr_t where "RNG_INTACK = 0x10"
definition RNG_CONTROL :: vaddr_t where "RNG_CONTROL = 0x14"
definition ENABLE_TRNG :: u32 where "ENABLE_TRNG = BIT 10"
definition RNG_CONFIG :: vaddr_t where "RNG_CONFIG = 0x18"
definition RNG_FROENABLE :: vaddr_t where "RNG_FROENABLE = 0x20"
definition RNG_FRODETUNE :: vaddr_t where "RNG_FRODETUNE = 0x24"
definition RNG_ALARMMASK :: vaddr_t where "RNG_ALARMMASK = 0x28"
definition RNG_ALARMSTOP :: vaddr_t where "RNG_ALARMSTOP = 0x2C"

definition RNG_CONTROL_STARTUP_CYCLES_MASK :: u32 where
  "RNG_CONTROL_STARTUP_CYCLES_MASK = GENMASK_32 31 16"

definition RNG_CONFIG_MAX_REFIL_CYCLES_SHIFT :: nat where
  "RNG_CONFIG_MAX_REFIL_CYCLES_SHIFT = 16"
definition RNG_CONFIG_MAX_REFIL_CYCLES_MASK :: u32 where
  "RNG_CONFIG_MAX_REFIL_CYCLES_MASK = GENMASK_32 31 16"
definition RNG_CONFIG_MIN_REFIL_CYCLES_SHIFT :: nat where
  "RNG_CONFIG_MIN_REFIL_CYCLES_SHIFT = 0"
definition RNG_CONFIG_MIN_REFIL_CYCLES_MASK :: u32 where
  "RNG_CONFIG_MIN_REFIL_CYCLES_MASK = GENMASK_32 7 0"

definition RNG_CONFIG_MIN_REFIL_CYCLES :: u32 where
  "RNG_CONFIG_MIN_REFIL_CYCLES = 0x5"
definition RNG_CONFIG_MAX_REFIL_CYCLES :: u32 where
  "RNG_CONFIG_MAX_REFIL_CYCLES = 0x22"

definition RNG_FRO_MASK :: u32 where
  "RNG_FRO_MASK = GENMASK_32 23 0"

subsection \<open>State, device accesses and results\<close>

text \<open>
  Every access to the device is recorded, in program order, with its address and the
  value read or written.
\<close>

datatype io_event = Rd vaddr_t u32 | Wr vaddr_t u32

text \<open>
  \<open>rng\<close>, \<open>fifo\<close> and \<open>fifo_pos\<close> are the driver's static variables. \<open>fifo\<close> is the
  byte view \<open>fifo.byte[i]\<close> of the 16-byte union, for \<open>i < 16\<close>; \<open>fifo_pos\<close> is a
  \<open>size_t\<close> that the code keeps below 16, so its increment never wraps. \<open>ram\<close> is the
  caller's byte-addressed memory. \<open>dev_in\<close> is what the device will answer to the
  coming register reads, in order, and \<open>io_trace\<close> the accesses performed so far.
\<close>

record state =
  rng :: vaddr_t
  fifo :: "nat \<Rightarrow> u8"
  fifo_pos :: nat
  ram :: "vaddr_t \<Rightarrow> u8"
  dev_in :: "u32 list"
  io_trace :: "io_event list"

text \<open>
  A call that does not come back is a value: \<open>NoReturn\<close> says that the device's answers
  in \<open>dev_in\<close> ran out before the call returned (a device that never raises READY keeps
  the caller in the polling loop whatever the length of \<open>dev_in\<close>); \<open>OutOfBounds\<close> says
  that \<open>fifo.byte\<close> was indexed at 16 or beyond, which C leaves undefined.
\<close>

datatype stop = NoReturn | OutOfBounds

text \<open>
  Modelled from the spec: \<open>TEE_Result\<close> and \<open>TEE_SUCCESS\<close> are declared in headers
  that are not among the sources; the specification distinguishes success from a
  failure indicator.
\<close>

datatype TEE_Result = TEE_SUCCESS | TEE_ERROR u32

definition failed :: "TEE_Result \<Rightarrow> bool" where
  "failed r = (r \<noteq> TEE_SUCCESS)"

definition io_read32 :: "vaddr_t \<Rightarrow> state \<Rightarrow> stop + (u32 \<times> state)" where
  "io_read32 addr s =
     (case dev_in s of
        [] \<Rightarrow> Inl NoReturn
      | v # vs \<Rightarrow> Inr (v, s\<lparr>dev_in := vs, io_trace := io_trace s @ [Rd addr v]\<rparr>))"

definition io_write32 :: "vaddr_t \<Rightarrow> u32 \<Rightarrow> state \<Rightarrow> state" where
  "io_write32 addr val s = s\<lparr>io_trace := io_trace s @ [Wr addr val]\<rparr>"

text \<open>The static variables are zero-initialised; nothing has been read or written yet.\<close>

definition boot_state :: "(vaddr_t \<Rightarrow> u8) \<Rightarrow> u32 list \<Rightarrow> state" where
  "boot_state m ins =
     \<lparr>rng = 0, fifo = (\<lambda>_. 0), fifo_pos = 0, ram = m, dev_in = ins, io_trace = []\<rparr>"

subsection \<open>Bring-up\<close>

definition eip76d_rng_is_enabled :: "state \<Rightarrow> stop + (bool \<times> state)" where
  "eip76d_rng_is_enabled s =
     (case io_read32 (rng s + RNG_CONTROL) s of
        Inl e \<Rightarrow> Inl e
      | Inr (v, s') \<Rightarrow> Inr (v AND ENABLE_TRNG \<noteq> 0, s'))"

definition eip76d_rng_init_seq :: "state \<Rightarrow> state" where
  "eip76d_rng_init_seq s =
     (let val0 = (0 :: u32);
          val1 = val0 OR push_bit RNG_CONFIG_MIN_REFIL_CYCLES_SHIFT RNG_CONFIG_MIN_REFIL_CYCLES;
          val2 = val1 OR push_bit RNG_CONFIG_MAX_REFIL_CYCLES_SHIFT RNG_CONFIG_MAX_REFIL_CYCLES;
          s1 = io_write32 (rng s + RNG_CONFIG) val2 s;
          s2 = io_write32 (rng s1 + RNG_FRODETUNE) 0x0 s1;
          s3 = io_write32 (rng s2 + RNG_FROENABLE) 0xffffff s2
      in io_write32 (rng s3 + RNG_CONTROL) ENABLE_TRNG s3)"

text \<open>
  \<open>eip76d_rng_init\<close>: \<open>va\<close> is what \<open>phys_to_virt(RNG_BASE, MEM_AREA_IO_SEC,
  RNG_REG_SIZE)\<close> returned. That function is outside the sources; it returns the null
  pointer when the translation fails.
\<close>

definition NULL :: vaddr_t where
  "NULL = 0"

definition eip76d_rng_init :: "vaddr_t \<Rightarrow> state \<Rightarrow> TEE_Result \<times> state" where
  "eip76d_rng_init va s = (TEE_SUCCESS, eip76d_rng_init_seq (s\<lparr>rng := va\<rparr>))"

subsection \<open>Block read\<close>

text \<open>The body of the \<open>if\<close> in the polling loop (the FRO shutdown recovery).\<close>

definition fro_recovery :: "state \<Rightarrow> stop + state" where
  "fro_recovery s =
     (case io_read32 (rng s + RNG_ALARMSTOP) s of
        Inl e \<Rightarrow> Inl e
      | Inr (alarm, s1) \<Rightarrow>
          (case io_read32 (rng s1 + RNG_FRODETUNE) s1 of
             Inl e \<Rightarrow> Inl e
           | Inr (tune, s2) \<Rightarrow>
               (let s3 = io_write32 (rng s2 + RNG_ALARMMASK) 0x0 s2;
                    s4 = io_write32 (rng s3 + RNG_ALARMSTOP) 0x0 s3;
                    s5 = io_write32 (rng s4 + RNG_FRODETUNE) (tune XOR alarm) s4;
                    s6 = io_write32 (rng s5 + RNG_FROENABLE) RNG_FRO_MASK s5
                in Inr (io_write32 (rng s6 + RNG_INTACK) SHUTDOWN_OFLO s6))))"

text \<open>
  The \<open>while\<close> loop of \<open>eip76d_rng_read128\<close>. Each iteration reads STATUS for the
  READY test and, when READY is clear, reads STATUS again for the SHUTDOWN_OFLO test.
  Every iteration consumes at least one answer of the device, which bounds the loop.
\<close>

function poll_ready :: "state \<Rightarrow> stop + state" where
  "poll_ready s =
     (case io_read32 (rng s + RNG_STATUS) s of
        Inl e \<Rightarrow> Inl e
      | Inr (st, s1) \<Rightarrow>
          if st AND RNG_READY \<noteq> 0 then Inr s1
          else
            (case io_read32 (rng s1 + RNG_STATUS) s1 of
               Inl e \<Rightarrow> Inl e
             | Inr (st', s2) \<Rightarrow>
                 if st' AND SHUTDOWN_OFLO \<noteq> 0 then
                   (case fro_recovery s2 of
                      Inl e \<Rightarrow> Inl e
                    | Inr s3 \<Rightarrow> poll_ready s3)
                 else poll_ready s2))"
  by pat_completeness auto
termination
proof (relation "measure (\<lambda>s. length (dev_in s))")
  show "wf (measure (\<lambda>s. length (dev_in s)))"
    by simp
next
  fix s x st s1 y st' s2 s3
  assume "io_read32 (rng s + RNG_STATUS) s = Inr x" "(st, s1) = x"
    "io_read32 (rng s1 + RNG_STATUS) s1 = Inr y" "(st', s2) = y"
    "fro_recovery s2 = Inr s3"
  then show "(s3, s) \<in> measure (\<lambda>s. length (dev_in s))"
    by (auto simp: io_read32_def io_write32_def fro_recovery_def Let_def
        split: list.splits)
next
  fix s x st s1 y st' s2
  assume "io_read32 (rng s + RNG_STATUS) s = Inr x" "(st, s1) = x"
    "io_read32 (rng s1 + RNG_STATUS) s1 = Inr y" "(st', s2) = y"
  then show "(s2, s) \<in> measure (\<lambda>s. length (dev_in s))"
    by (auto simp: io_read32_def split: list.splits)
qed

declare poll_ready.simps [simp del]

text \<open>
  \<open>eip76d_rng_read128\<close> stores the four words through its pointer arguments; the model
  returns them, and the caller stores them where the pointers point.
\<close>

definition eip76d_rng_read128 :: "state \<Rightarrow> stop + ((u32 \<times> u32 \<times> u32 \<times> u32) \<times> state)" where
  "eip76d_rng_read128 s =
     (case eip76d_rng_is_enabled s of
        Inl e \<Rightarrow> Inl e
      | Inr (en, s0) \<Rightarrow>
          (case poll_ready (if \<not> en then eip76d_rng_init_seq s0 else s0) of
             Inl e \<Rightarrow> Inl e
           | Inr s1 \<Rightarrow>
               (case io_read32 (rng s1 + RNG_OUTPUT_0) s1 of
                  Inl e \<Rightarrow> Inl e
                | Inr (word0, s2) \<Rightarrow>
                    (case io_read32 (rng s2 + RNG_OUTPUT_1) s2 of
                       Inl e \<Rightarrow> Inl e
                     | Inr (word1, s3) \<Rightarrow>
                         (case io_read32 (rng s3 + RNG_OUTPUT_2) s3 of
                            Inl e \<Rightarrow> Inl e
                          | Inr (word2, s4) \<Rightarrow>
                              (case io_read32 (rng s4 + RNG_OUTPUT_3) s4 of
                                 Inl e \<Rightarrow> Inl e
                               | Inr (word3, s5) \<Rightarrow>
                                   Inr ((word0, word1, word2, word3),
                                        io_write32 (rng s5 + RNG_INTACK) RNG_READY s5)))))))"

subsection \<open>Byte FIFO adapter\<close>

text \<open>
  The union overlays \<open>uint32_t val[4]\<close> and \<open>uint8_t byte[16]\<close>. The target is
  little-endian, so storing \<open>w\<close> in \<open>fifo.val[k]\<close> sets \<open>fifo.byte[4k .. 4k+3]\<close> to the
  bytes of \<open>w\<close>, least significant first.
\<close>

definition store_val :: "nat \<Rightarrow> u32 \<Rightarrow> (nat \<Rightarrow> u8) \<Rightarrow> (nat \<Rightarrow> u8)" where
  "store_val k w f =
     f(4 * k := ucast w,
       4 * k + 1 := ucast (drop_bit 8 w),
       4 * k + 2 := ucast (drop_bit 16 w),
       4 * k + 3 := ucast (drop_bit 24 w))"

text \<open>The refill: \<open>eip76d_rng_read128(&fifo.val[0], ..., &fifo.val[3])\<close>.\<close>

definition refill :: "state \<Rightarrow> stop + state" where
  "refill s =
     (case eip76d_rng_read128 s of
        Inl e \<Rightarrow> Inl e
      | Inr ((word0, word1, word2, word3), s') \<Rightarrow>
          Inr (s'\<lparr>fifo := store_val 3 word3 (store_val 2 word2
                 (store_val 1 word1 (store_val 0 word0 (fifo s'))))\<rparr>))"

text \<open>
  One iteration of the loop of \<open>hw_get_random_bytes\<close>, between \<open>mutex_lock\<close> and
  \<open>mutex_unlock\<close>; \<open>buffer_pos\<close> is incremented by the loop function below.
\<close>

definition fetch_byte :: "vaddr_t \<Rightarrow> nat \<Rightarrow> state \<Rightarrow> stop + state" where
  "fetch_byte buffer buffer_pos s =
     (case (if fifo_pos s = 0 then refill s else Inr s) of
        Inl e \<Rightarrow> Inl e
      | Inr s1 \<Rightarrow>
          if fifo_pos s1 < 16 then
            Inr (s1\<lparr>ram := (ram s1)(buffer + of_nat buffer_pos := fifo s1 (fifo_pos s1)),
                    fifo_pos := (fifo_pos s1 + 1) mod 16\<rparr>)
          else Inl OutOfBounds)"

function fetch_loop :: "vaddr_t \<Rightarrow> nat \<Rightarrow> nat \<Rightarrow> state \<Rightarrow> stop + state" where
  "fetch_loop buffer len buffer_pos s =
     (if buffer_pos < len then
        (case fetch_byte buffer buffer_pos s of
           Inl e \<Rightarrow> Inl e
         | Inr s' \<Rightarrow> fetch_loop buffer len (buffer_pos + 1) s')
      else Inr s)"
  by pat_completeness auto
termination
  by (relation "measure (\<lambda>(buffer, len, buffer_pos, s). len - buffer_pos)") auto

declare fetch_loop.simps [simp del]

text \<open>\<open>len\<close> is a \<open>size_t\<close>; \<open>buffer_pos\<close> stays below it and so never wraps.\<close>

definition hw_get_random_bytes :: "vaddr_t \<Rightarrow> 64 word \<Rightarrow> state \<Rightarrow> stop + (TEE_Result \<times> state)" where
  "hw_get_random_bytes buf len s =
     (case fetch_loop buf (unat len) 0 s of
        Inl e \<Rightarrow> Inl e
      | Inr s' \<Rightarrow> Inr (TEE_SUCCESS, s'))"

section \<open>Vocabulary of the properties\<close>

text \<open>The device accesses performed between two states.\<close>

definition new_trace :: "state \<Rightarrow> state \<Rightarrow> io_event list" where
  "new_trace s s' = drop (length (io_trace s)) (io_trace s')"

text \<open>
  The contents of the device's writable registers after the writes of a trace, starting
  from the contents \<open>m\<close>: a register holds the value written to it last.
\<close>

fun regs_after :: "(vaddr_t \<Rightarrow> u32) \<Rightarrow> io_event list \<Rightarrow> (vaddr_t \<Rightarrow> u32)" where
  "regs_after m [] = m"
| "regs_after m (Rd a v # t) = regs_after m t"
| "regs_after m (Wr a v # t) = regs_after (m(a := v)) t"

definition zero_ram :: "vaddr_t \<Rightarrow> u8" where
  "zero_ram a = 0"

definition zero_regs :: "vaddr_t \<Rightarrow> u32" where
  "zero_regs a = 0"

text \<open>
  An access that neither touches an OUTPUT register nor acknowledges READY.
\<close>

definition quiet :: "vaddr_t \<Rightarrow> io_event \<Rightarrow> bool" where
  "quiet base e =
     (case e of
        Rd a v \<Rightarrow> a \<notin> {base + RNG_OUTPUT_0, base + RNG_OUTPUT_1, base + RNG_OUTPUT_2, base + RNG_OUTPUT_3}
      | Wr a v \<Rightarrow> a \<notin> {base + RNG_OUTPUT_0, base + RNG_OUTPUT_1, base + RNG_OUTPUT_2, base + RNG_OUTPUT_3}
                  \<and> (a, v) \<noteq> (base + RNG_INTACK, RNG_READY))"

text \<open>
  A read access of the register at address \<open>a\<close>.
\<close>

fun is_rd :: "vaddr_t \<Rightarrow> io_event \<Rightarrow> bool" where
  "is_rd a (Rd a' v) = (a' = a)"
| "is_rd a (Wr a' v) = False"

text \<open>
  The number of block reads in a trace: every call of \<open>eip76d_rng_read128\<close> that
  returns reads OUTPUT_0 exactly once, and nothing else reads it.
\<close>

definition block_reads :: "vaddr_t \<Rightarrow> io_event list \<Rightarrow> nat" where
  "block_reads base t = length (filter (is_rd (base + RNG_OUTPUT_0)) t)"

text \<open>
  The four bytes of a 32-bit word, least significant first.
\<close>

definition le_bytes :: "u32 \<Rightarrow> u8 list" where
  "le_bytes w = [ucast w, ucast (drop_bit 8 w), ucast (drop_bit 16 w), ucast (drop_bit 24 w)]"

text \<open>
  The entropy bytes an access produces: the bytes of the word read from an OUTPUT
  register, nothing for any other access.
\<close>

fun out_bytes :: "vaddr_t \<Rightarrow> io_event \<Rightarrow> u8 list" where
  "out_bytes base (Rd a v) =
     (if a \<in> {base + RNG_OUTPUT_0, base + RNG_OUTPUT_1, base + RNG_OUTPUT_2, base + RNG_OUTPUT_3}
      then le_bytes v else [])"
| "out_bytes base (Wr a v) = []"

text \<open>
  The bytes of entropy produced by the device along a trace, in order.
\<close>

definition entropy :: "vaddr_t \<Rightarrow> io_event list \<Rightarrow> u8 list" where
  "entropy base t = concat (map (out_bytes base) t)"

text \<open>
  The bytes of the FIFO that were read from the device and not yet handed out: none
  when the cursor is 0 (the buffer is stale), else the bytes from the cursor to 15.
\<close>

definition pending :: "state \<Rightarrow> u8 list" where
  "pending s = (if fifo_pos s = 0 then [] else map (fifo s) [fifo_pos s ..< 16])"

text \<open>
  The first \<open>n\<close> bytes of the destination buffer at \<open>buf\<close>.
\<close>

definition delivered :: "vaddr_t \<Rightarrow> nat \<Rightarrow> state \<Rightarrow> u8 list" where
  "delivered buf n s = map (\<lambda>i. ram s (buf + of_nat i)) [0 ..< n]"

text \<open>
  Memory after the bytes \<open>bs\<close> were stored at \<open>buf[pos], buf[pos + 1], ...\<close> in that order.
\<close>

fun write_bytes :: "(vaddr_t \<Rightarrow> u8) \<Rightarrow> vaddr_t \<Rightarrow> nat \<Rightarrow> u8 list \<Rightarrow> (vaddr_t \<Rightarrow> u8)" where
  "write_bytes m buf pos [] = m"
| "write_bytes m buf pos (b # bs) = write_bytes (m(buf + of_nat pos := b)) buf (pos + 1) bs"

text \<open>
  The accesses of a block read that finds READY at its first poll: the enable check, the
  bring-up writes when ENABLE was clear, the STATUS poll, the four OUTPUT reads and the
  acknowledgement.
\<close>

definition block_trace :: "vaddr_t \<Rightarrow> u32 \<Rightarrow> u32 \<Rightarrow> u32 \<Rightarrow> u32 \<Rightarrow> u32 \<Rightarrow> u32 \<Rightarrow> io_event list" where
  "block_trace base ctrl st w0 w1 w2 w3 =
     Rd (base + RNG_CONTROL) ctrl #
       (if ctrl AND ENABLE_TRNG = 0 then
          [Wr (base + RNG_CONFIG) 0x220005, Wr (base + RNG_FRODETUNE) 0,
           Wr (base + RNG_FROENABLE) 0xffffff, Wr (base + RNG_CONTROL) 0x400]
        else []) @
       [Rd (base + RNG_STATUS) st,
        Rd (base + RNG_OUTPUT_0) w0, Rd (base + RNG_OUTPUT_1) w1,
        Rd (base + RNG_OUTPUT_2) w2, Rd (base + RNG_OUTPUT_3) w3,
        Wr (base + RNG_INTACK) RNG_READY]"

text \<open>
  The device answers \<open>k\<close> block reads promptly: each finds READY at its first poll and
  is answered on all six of its reads.
\<close>

fun ready_script :: "nat \<Rightarrow> u32 list \<Rightarrow> bool" where
  "ready_script 0 ins = True"
| "ready_script (Suc k) (ctrl # st # w0 # w1 # w2 # w3 # rest) =
     (st AND RNG_READY \<noteq> 0 \<and> ready_script k rest)"
| "ready_script (Suc k) ins = False"

text \<open>
  The state after platform bring-up, with the device mapped at 0x2000000 and \<open>ins\<close> as
  the answers of the device.
\<close>

definition started :: "u32 list \<Rightarrow> state" where
  "started ins = snd (eip76d_rng_init 0x2000000 (boot_state zero_ram ins))"

text \<open>
  A device found disabled, ready at the first poll, with outputs 0xDEADBEEF, 0, 0, 0.
\<close>

definition s1_script :: "u32 list" where
  "s1_script = [0, 1, 0xDEADBEEF, 0, 0, 0]"

text \<open>
  An enabled device that answers two block reads promptly.
\<close>

definition s2_script :: "u32 list" where
  "s2_script = [0x400, 1, 0x03020100, 0x07060504, 0x0B0A0908, 0x0F0E0D0C,
                0x400, 1, 0x13121110, 0x17161514, 0x1B1A1918, 0x1F1E1D1C]"

text \<open>
  The state after a first fetch of 10 bytes on that device.
\<close>

definition s2_mid :: state where
  "s2_mid = snd (projr (hw_get_random_bytes 0x1000 10 (started s2_script)))"

text \<open>
  The state after a second fetch of 10 bytes.
\<close>

definition s2_end :: state where
  "s2_end = snd (projr (hw_get_random_bytes 0x2000 10 s2_mid))"

text \<open>
  A started driver whose cursor stands at the last byte of the FIFO.
\<close>

definition cursor15 :: state where
  "cursor15 = (started [])\<lparr>fifo_pos := 15\<rparr>"

text \<open>
  An enabled device that is not ready at the first poll, reports SHUTDOWN_OFLO with
  ALARMSTOP = 0xA5 and FRODETUNE = 0, and is ready at the next poll with the outputs
  0xDEADBEEF, 0, 0, 0.
\<close>

definition s3_script :: "u32 list" where
  "s3_script = [0x400, 0, 2, 0xA5, 0, 1, 0xDEADBEEF, 0, 0, 0]"

text \<open>
  The state in which the polling loop leaves a driver at boot on that device: READY has
  just been observed and the four output words are still to be read.
\<close>

definition s3_polled :: state where
  "s3_polled = (boot_state zero_ram [0xDEADBEEF, 0, 0, 0])\<lparr>io_trace :=
     [Rd 0x14 0x400, Rd 0x10 0, Rd 0x10 2, Rd 0x2C 0xA5, Rd 0x24 0,
      Wr 0x28 0, Wr 0x2C 0, Wr 0x24 0xA5, Wr 0x20 0xffffff, Wr 0x10 2, Rd 0x10 1]\<rparr>"

section \<open>Properties\<close>

subsection \<open>Register map and single accesses\<close>


named_theorems regmap \<open>the values of the register map's constants\<close>

lemmas regmap_defs [regmap] =
  BIT_def GENMASK_32_def
  RNG_OUTPUT_0_def RNG_OUTPUT_1_def RNG_OUTPUT_2_def RNG_OUTPUT_3_def
  RNG_STATUS_def RNG_READY_def SHUTDOWN_OFLO_def RNG_INTACK_def RNG_CONTROL_def
  ENABLE_TRNG_def RNG_CONFIG_def RNG_FROENABLE_def RNG_FRODETUNE_def
  RNG_ALARMMASK_def RNG_ALARMSTOP_def RNG_CONTROL_STARTUP_CYCLES_MASK_def
  RNG_CONFIG_MAX_REFIL_CYCLES_SHIFT_def RNG_CONFIG_MAX_REFIL_CYCLES_MASK_def
  RNG_CONFIG_MIN_REFIL_CYCLES_SHIFT_def RNG_CONFIG_MIN_REFIL_CYCLES_MASK_def
  RNG_CONFIG_MIN_REFIL_CYCLES_def RNG_CONFIG_MAX_REFIL_CYCLES_def RNG_FRO_MASK_def


lemma bit_values: "RNG_READY = 1" "SHUTDOWN_OFLO = 2" "ENABLE_TRNG = 0x400"
  by (simp_all add: regmap)

lemma RNG_FRO_MASK_value: "RNG_FRO_MASK = 0xffffff"
  by (simp add: regmap mask_eq_exp_minus_1)

lemma field_masks:
  "RNG_CONTROL_STARTUP_CYCLES_MASK = 0xffff0000"
  "RNG_CONFIG_MAX_REFIL_CYCLES_MASK = 0xffff0000"
  "RNG_CONFIG_MIN_REFIL_CYCLES_MASK = 0xff"
  by (simp_all add: regmap mask_eq_exp_minus_1)

lemma io_read32_Inr:
  "io_read32 a s = Inr (v, s') \<longleftrightarrow>
     (\<exists>vs. dev_in s = v # vs \<and> s' = s\<lparr>dev_in := vs, io_trace := io_trace s @ [Rd a v]\<rparr>)"
  by (auto simp: io_read32_def split: list.splits)

lemma io_read32_Cons:
  "dev_in s = v # vs \<Longrightarrow>
     io_read32 a s = Inr (v, s\<lparr>dev_in := vs, io_trace := io_trace s @ [Rd a v]\<rparr>)"
  by (simp add: io_read32_def)

lemma new_trace_append: "io_trace s' = io_trace s @ t \<Longrightarrow> new_trace s s' = t"
  by (simp add: new_trace_def)

subsection \<open>Bring-up\<close>

lemma init_seq_eq:
  "eip76d_rng_init_seq s =
     s\<lparr>io_trace := io_trace s @
        [Wr (rng s + RNG_CONFIG) 0x220005, Wr (rng s + RNG_FRODETUNE) 0,
         Wr (rng s + RNG_FROENABLE) 0xffffff, Wr (rng s + RNG_CONTROL) 0x400]\<rparr>"
  by (simp add: eip76d_rng_init_seq_def io_write32_def Let_def regmap)

lemma init_eq:
  "eip76d_rng_init va s =
     (TEE_SUCCESS, s\<lparr>rng := va, io_trace := io_trace s @
        [Wr (va + RNG_CONFIG) 0x220005, Wr (va + RNG_FRODETUNE) 0,
         Wr (va + RNG_FROENABLE) 0xffffff, Wr (va + RNG_CONTROL) 0x400]\<rparr>)"
  by (simp add: eip76d_rng_init_def init_seq_eq)

text \<open>
  C2, as stated, fails: with the null pointer of a failed translation,
  \<open>eip76d_rng_init\<close> still reports success.
\<close>

theorem init_null_reports_success:
  "\<not> failed (fst (eip76d_rng_init NULL (boot_state zero_ram [])))"
  by (simp add: init_eq failed_def)

text \<open>
  C2, amended: \<open>eip76d_rng_init\<close> does not look at the result of the translation. For
  every result, the null pointer included, it stores the result as the device base,
  performs the four bring-up writes relative to it and returns \<open>TEE_SUCCESS\<close>.
\<close>

theorem init_ignores_translation_result:
  "fst (eip76d_rng_init va s) = TEE_SUCCESS
   \<and> rng (snd (eip76d_rng_init va s)) = va
   \<and> new_trace s (snd (eip76d_rng_init va s)) =
       [Wr (va + RNG_CONFIG) 0x220005, Wr (va + RNG_FRODETUNE) 0,
        Wr (va + RNG_FROENABLE) 0xffffff, Wr (va + RNG_CONTROL) 0x400]"
  by (simp add: init_eq new_trace_def)

theorem init_ignores_translation_result_witness:
  "fst (eip76d_rng_init 0x2000000 (boot_state zero_ram [])) = TEE_SUCCESS
   \<and> rng (snd (eip76d_rng_init 0x2000000 (boot_state zero_ram []))) = 0x2000000
   \<and> new_trace (boot_state zero_ram []) (snd (eip76d_rng_init 0x2000000 (boot_state zero_ram []))) =
       [Wr 0x2000018 0x220005, Wr 0x2000024 0, Wr 0x2000020 0xffffff, Wr 0x2000014 0x400]"
  using init_ignores_translation_result [of "0x2000000" "boot_state zero_ram []"]
  by (simp add: regmap)

text \<open>
  C5: after \<open>eip76d_rng_init\<close>, the register file (each register holding the value last
  written to it) has ENABLE (bit 10) set in CONTROL with a zero startup-cycle field,
  min-refill 0x05 and max-refill 0x22 in CONFIG, 0 in FRODETUNE and 0x00FFFFFF in
  FROENABLE; no other register was written; running \<open>eip76d_rng_init\<close> or the bring-up
  sequence again leaves the same register file.
\<close>

theorem init_register_state:
  "regs_after m (new_trace s (snd (eip76d_rng_init va s))) =
     m(va + RNG_CONFIG := 0x220005, va + RNG_FRODETUNE := 0,
       va + RNG_FROENABLE := 0xffffff, va + RNG_CONTROL := 0x400)
   \<and> bit (regs_after m (new_trace s (snd (eip76d_rng_init va s))) (va + RNG_CONTROL)) 10
   \<and> regs_after m (new_trace s (snd (eip76d_rng_init va s))) (va + RNG_CONTROL)
        AND RNG_CONTROL_STARTUP_CYCLES_MASK = 0
   \<and> regs_after m (new_trace s (snd (eip76d_rng_init va s))) (va + RNG_CONFIG)
        AND RNG_CONFIG_MIN_REFIL_CYCLES_MASK = 0x05
   \<and> drop_bit RNG_CONFIG_MAX_REFIL_CYCLES_SHIFT
        (regs_after m (new_trace s (snd (eip76d_rng_init va s))) (va + RNG_CONFIG)
           AND RNG_CONFIG_MAX_REFIL_CYCLES_MASK) = 0x22
   \<and> regs_after m (new_trace s (snd (eip76d_rng_init va s))) (va + RNG_FRODETUNE) = 0
   \<and> regs_after m (new_trace s (snd (eip76d_rng_init va s))) (va + RNG_FROENABLE) = 0xffffff
   \<and> regs_after m (new_trace s (snd (eip76d_rng_init va (snd (eip76d_rng_init va s))))) =
       regs_after m (new_trace s (snd (eip76d_rng_init va s)))
   \<and> regs_after m (new_trace s (eip76d_rng_init_seq (snd (eip76d_rng_init va s)))) =
       regs_after m (new_trace s (snd (eip76d_rng_init va s)))"
proof -
  let ?r = "regs_after m (new_trace s (snd (eip76d_rng_init va s)))"
  have r: "?r = m(va + RNG_CONFIG := 0x220005, va + RNG_FRODETUNE := 0,
       va + RNG_FROENABLE := 0xffffff, va + RNG_CONTROL := 0x400)"
    by (simp add: init_eq new_trace_def)
  have ctl: "?r (va + RNG_CONTROL) = 0x400" and cfg: "?r (va + RNG_CONFIG) = 0x220005"
    and tune: "?r (va + RNG_FRODETUNE) = 0" and en: "?r (va + RNG_FROENABLE) = 0xffffff"
    unfolding r by (simp_all add: regmap)
  have c1: "bit (?r (va + RNG_CONTROL)) 10"
    unfolding ctl by (simp add: bit_iff_odd_drop_bit)
  have c2: "?r (va + RNG_CONTROL) AND RNG_CONTROL_STARTUP_CYCLES_MASK = 0"
    unfolding ctl by (simp add: field_masks)
  have c3: "?r (va + RNG_CONFIG) AND RNG_CONFIG_MIN_REFIL_CYCLES_MASK = 0x05"
    unfolding cfg by (simp add: field_masks)
  have c4: "drop_bit RNG_CONFIG_MAX_REFIL_CYCLES_SHIFT
        (?r (va + RNG_CONFIG) AND RNG_CONFIG_MAX_REFIL_CYCLES_MASK) = 0x22"
    unfolding cfg by (simp add: field_masks RNG_CONFIG_MAX_REFIL_CYCLES_SHIFT_def)
  have again: "regs_after m (new_trace s (snd (eip76d_rng_init va (snd (eip76d_rng_init va s))))) = ?r"
    unfolding r by (rule ext) (simp add: init_eq regmap new_trace_def)
  have again_seq: "regs_after m (new_trace s (eip76d_rng_init_seq (snd (eip76d_rng_init va s)))) = ?r"
    unfolding r by (rule ext) (simp add: init_eq init_seq_eq regmap new_trace_def)
  show ?thesis
    by (intro conjI r c1 c2 c3 c4 tune en again again_seq)
qed

theorem init_register_state_witness:
  "regs_after zero_regs (new_trace (boot_state zero_ram [])
      (snd (eip76d_rng_init 0x2000000 (boot_state zero_ram [])))) 0x2000014 = 0x400
   \<and> regs_after zero_regs (new_trace (boot_state zero_ram [])
      (snd (eip76d_rng_init 0x2000000 (boot_state zero_ram [])))) 0x2000018 = 0x220005
   \<and> regs_after zero_regs (new_trace (boot_state zero_ram [])
      (snd (eip76d_rng_init 0x2000000 (snd (eip76d_rng_init 0x2000000 (boot_state zero_ram [])))))) =
     regs_after zero_regs (new_trace (boot_state zero_ram [])
      (snd (eip76d_rng_init 0x2000000 (boot_state zero_ram []))))"
  using init_register_state [of zero_regs "boot_state zero_ram []" "0x2000000"]
  by (simp add: regmap)

subsection \<open>Block read\<close>

lemma fro_recovery_Inr:
  "fro_recovery s = Inr s' \<longleftrightarrow>
     (\<exists>alarm tune vs. dev_in s = alarm # tune # vs \<and>
        s' = s\<lparr>dev_in := vs, io_trace := io_trace s @
          [Rd (rng s + RNG_ALARMSTOP) alarm, Rd (rng s + RNG_FRODETUNE) tune,
           Wr (rng s + RNG_ALARMMASK) 0, Wr (rng s + RNG_ALARMSTOP) 0,
           Wr (rng s + RNG_FRODETUNE) (tune XOR alarm),
           Wr (rng s + RNG_FROENABLE) RNG_FRO_MASK,
           Wr (rng s + RNG_INTACK) SHUTDOWN_OFLO]\<rparr>)"
  by (auto simp: fro_recovery_def io_read32_def io_write32_def Let_def split: list.splits)

lemma poll_ready_trace:
  "poll_ready s = Inr s' \<Longrightarrow>
     \<exists>pre st vs. s' = s\<lparr>dev_in := vs, io_trace := io_trace s @ pre @ [Rd (rng s + RNG_STATUS) st]\<rparr>
        \<and> st AND RNG_READY \<noteq> 0 \<and> list_all (quiet (rng s)) pre"
proof (induction s rule: poll_ready.induct)
  case (1 s)
  from "1.prems" obtain st s1 where r1: "io_read32 (rng s + RNG_STATUS) s = Inr (st, s1)"
    by (subst (asm) poll_ready.simps) (auto split: sum.splits)
  then obtain vs where s1: "dev_in s = st # vs"
    "s1 = s\<lparr>dev_in := vs, io_trace := io_trace s @ [Rd (rng s + RNG_STATUS) st]\<rparr>"
    by (auto simp: io_read32_Inr)
  show ?case
  proof (cases "st AND RNG_READY \<noteq> 0")
    case True
    with "1.prems" r1 have "s' = s1"
      by (subst (asm) poll_ready.simps) simp
    with s1 True show ?thesis
      by (intro exI [of _ "[]"] exI [of _ st] exI [of _ vs]) simp
  next
    case False
    with "1.prems" r1 obtain st' s2 where r2: "io_read32 (rng s1 + RNG_STATUS) s1 = Inr (st', s2)"
      by (subst (asm) poll_ready.simps) (auto split: sum.splits)
    then obtain vs' where s2: "dev_in s1 = st' # vs'"
      "s2 = s1\<lparr>dev_in := vs', io_trace := io_trace s1 @ [Rd (rng s1 + RNG_STATUS) st']\<rparr>"
      by (auto simp: io_read32_Inr)
    show ?thesis
    proof (cases "st' AND SHUTDOWN_OFLO \<noteq> 0")
      case True
      with "1.prems" r1 r2 False obtain s3 where r3: "fro_recovery s2 = Inr s3"
        and p: "poll_ready s3 = Inr s'"
        by (subst (asm) poll_ready.simps) (auto split: sum.splits)
      from "1.IH"(1) [OF r1 refl False r2 refl True r3 p]
      obtain pre stf vsf where
        a: "s' = s3\<lparr>dev_in := vsf, io_trace := io_trace s3 @ pre @ [Rd (rng s3 + RNG_STATUS) stf]\<rparr>"
        and b: "stf AND RNG_READY \<noteq> 0" and c: "list_all (quiet (rng s3)) pre"
        by blast
      from r3 obtain alarm tune ws where s3: "dev_in s2 = alarm # tune # ws"
        "s3 = s2\<lparr>dev_in := ws, io_trace := io_trace s2 @
          [Rd (rng s2 + RNG_ALARMSTOP) alarm, Rd (rng s2 + RNG_FRODETUNE) tune,
           Wr (rng s2 + RNG_ALARMMASK) 0, Wr (rng s2 + RNG_ALARMSTOP) 0,
           Wr (rng s2 + RNG_FRODETUNE) (tune XOR alarm),
           Wr (rng s2 + RNG_FROENABLE) RNG_FRO_MASK,
           Wr (rng s2 + RNG_INTACK) SHUTDOWN_OFLO]\<rparr>"
        by (auto simp: fro_recovery_Inr)
      let ?pre = "[Rd (rng s + RNG_STATUS) st, Rd (rng s + RNG_STATUS) st',
           Rd (rng s + RNG_ALARMSTOP) alarm, Rd (rng s + RNG_FRODETUNE) tune,
           Wr (rng s + RNG_ALARMMASK) 0, Wr (rng s + RNG_ALARMSTOP) 0,
           Wr (rng s + RNG_FRODETUNE) (tune XOR alarm),
           Wr (rng s + RNG_FROENABLE) RNG_FRO_MASK,
           Wr (rng s + RNG_INTACK) SHUTDOWN_OFLO] @ pre"
      have "list_all (quiet (rng s)) ?pre"
        using c s1 s2 s3 by (simp add: quiet_def regmap)
      moreover have "s' = s\<lparr>dev_in := vsf, io_trace := io_trace s @ ?pre @ [Rd (rng s + RNG_STATUS) stf]\<rparr>"
        using a s1 s2 s3 by simp
      ultimately show ?thesis using b by blast
    next
      case F2: False
      with "1.prems" r1 r2 False have p: "poll_ready s2 = Inr s'"
        by (subst (asm) poll_ready.simps) (auto split: sum.splits)
      from "1.IH"(2) [OF r1 refl False r2 refl F2 p]
      obtain pre stf vsf where
        a: "s' = s2\<lparr>dev_in := vsf, io_trace := io_trace s2 @ pre @ [Rd (rng s2 + RNG_STATUS) stf]\<rparr>"
        and b: "stf AND RNG_READY \<noteq> 0" and c: "list_all (quiet (rng s2)) pre"
        by blast
      let ?pre = "[Rd (rng s + RNG_STATUS) st, Rd (rng s + RNG_STATUS) st'] @ pre"
      have "list_all (quiet (rng s)) ?pre"
        using c s1 s2 by (simp add: quiet_def regmap)
      moreover have "s' = s\<lparr>dev_in := vsf, io_trace := io_trace s @ ?pre @ [Rd (rng s + RNG_STATUS) stf]\<rparr>"
        using a s1 s2 by simp
      ultimately show ?thesis using b by blast
    qed
  qed
qed

lemma is_enabled_Inr:
  "eip76d_rng_is_enabled s = Inr (en, s0) \<longleftrightarrow>
     (\<exists>v vs. dev_in s = v # vs \<and> en = (v AND ENABLE_TRNG \<noteq> 0)
        \<and> s0 = s\<lparr>dev_in := vs, io_trace := io_trace s @ [Rd (rng s + RNG_CONTROL) v]\<rparr>)"
  by (auto simp: eip76d_rng_is_enabled_def io_read32_def split: list.splits)

lemma read128_stages:
  assumes "eip76d_rng_read128 s = Inr (ws, s')"
  obtains en s0 s1 w0 s2 w1 s3 w2 s4 w3 s5 where
    "eip76d_rng_is_enabled s = Inr (en, s0)"
    "poll_ready (if \<not> en then eip76d_rng_init_seq s0 else s0) = Inr s1"
    "io_read32 (rng s1 + RNG_OUTPUT_0) s1 = Inr (w0, s2)"
    "io_read32 (rng s2 + RNG_OUTPUT_1) s2 = Inr (w1, s3)"
    "io_read32 (rng s3 + RNG_OUTPUT_2) s3 = Inr (w2, s4)"
    "io_read32 (rng s4 + RNG_OUTPUT_3) s4 = Inr (w3, s5)"
    "ws = (w0, w1, w2, w3)" "s' = io_write32 (rng s5 + RNG_INTACK) RNG_READY s5"
  using assms unfolding eip76d_rng_read128_def
  by (auto split: sum.splits)

lemma poll_ready_now:
  "dev_in s = st # rest \<Longrightarrow> st AND RNG_READY \<noteq> 0 \<Longrightarrow>
     poll_ready s = Inr (s\<lparr>dev_in := rest, io_trace := io_trace s @ [Rd (rng s + RNG_STATUS) st]\<rparr>)"
  by (subst poll_ready.simps) (simp add: io_read32_def)

lemma read128_ready:
  assumes "dev_in s = ctrl # st # w0 # w1 # w2 # w3 # rest" "st AND RNG_READY \<noteq> 0"
  shows "eip76d_rng_read128 s =
     Inr ((w0, w1, w2, w3),
       s\<lparr>dev_in := rest,
         io_trace := io_trace s @ Rd (rng s + RNG_CONTROL) ctrl #
           (if ctrl AND ENABLE_TRNG = 0 then
              [Wr (rng s + RNG_CONFIG) 0x220005, Wr (rng s + RNG_FRODETUNE) 0,
               Wr (rng s + RNG_FROENABLE) 0xffffff, Wr (rng s + RNG_CONTROL) 0x400]
            else []) @
           [Rd (rng s + RNG_STATUS) st,
            Rd (rng s + RNG_OUTPUT_0) w0, Rd (rng s + RNG_OUTPUT_1) w1,
            Rd (rng s + RNG_OUTPUT_2) w2, Rd (rng s + RNG_OUTPUT_3) w3,
            Wr (rng s + RNG_INTACK) RNG_READY]\<rparr>)"
  using assms
  by (simp add: eip76d_rng_read128_def eip76d_rng_is_enabled_def io_read32_def io_write32_def
      init_seq_eq poll_ready_now)

lemma read128_trace:
  assumes "eip76d_rng_read128 s = Inr ((w0, w1, w2, w3), s')"
  shows "\<exists>pre st. new_trace s s' =
           pre @ [Rd (rng s + RNG_STATUS) st,
                  Rd (rng s + RNG_OUTPUT_0) w0, Rd (rng s + RNG_OUTPUT_1) w1,
                  Rd (rng s + RNG_OUTPUT_2) w2, Rd (rng s + RNG_OUTPUT_3) w3,
                  Wr (rng s + RNG_INTACK) RNG_READY]
         \<and> io_trace s' = io_trace s @ new_trace s s'
         \<and> st AND RNG_READY \<noteq> 0
         \<and> list_all (quiet (rng s)) pre"
proof -
  from assms obtain en s0 s1 s2 s3 s4 s5 where
    e: "eip76d_rng_is_enabled s = Inr (en, s0)"
    and p: "poll_ready (if \<not> en then eip76d_rng_init_seq s0 else s0) = Inr s1"
      (is "poll_ready ?s0 = _")
    and r0: "io_read32 (rng s1 + RNG_OUTPUT_0) s1 = Inr (w0, s2)"
    and r1: "io_read32 (rng s2 + RNG_OUTPUT_1) s2 = Inr (w1, s3)"
    and r2: "io_read32 (rng s3 + RNG_OUTPUT_2) s3 = Inr (w2, s4)"
    and r3: "io_read32 (rng s4 + RNG_OUTPUT_3) s4 = Inr (w3, s5)"
    and s': "s' = io_write32 (rng s5 + RNG_INTACK) RNG_READY s5"
    by (elim read128_stages) simp
  from e obtain v where
    t0: "io_trace s0 = io_trace s @ [Rd (rng s + RNG_CONTROL) v]" and b0: "rng s0 = rng s"
    by (auto simp: is_enabled_Inr)
  obtain ini where ti: "io_trace ?s0 = io_trace s0 @ ini" and bi: "rng ?s0 = rng s0"
    and qi: "list_all (quiet (rng s)) ini"
    by (cases en) (simp_all add: init_seq_eq quiet_def regmap b0)
  from poll_ready_trace [OF p] obtain pre st where
    t1: "io_trace s1 = io_trace ?s0 @ pre @ [Rd (rng ?s0 + RNG_STATUS) st]"
    and b1: "rng s1 = rng ?s0"
    and rdy: "st AND RNG_READY \<noteq> 0" and q: "list_all (quiet (rng ?s0)) pre"
    by auto
  from r0 have t2: "io_trace s2 = io_trace s1 @ [Rd (rng s1 + RNG_OUTPUT_0) w0]"
    and b2: "rng s2 = rng s1"
    by (auto simp: io_read32_Inr)
  from r1 have t3: "io_trace s3 = io_trace s2 @ [Rd (rng s2 + RNG_OUTPUT_1) w1]"
    and b3: "rng s3 = rng s2"
    by (auto simp: io_read32_Inr)
  from r2 have t4: "io_trace s4 = io_trace s3 @ [Rd (rng s3 + RNG_OUTPUT_2) w2]"
    and b4: "rng s4 = rng s3"
    by (auto simp: io_read32_Inr)
  from r3 have t5: "io_trace s5 = io_trace s4 @ [Rd (rng s4 + RNG_OUTPUT_3) w3]"
    and b5: "rng s5 = rng s4"
    by (auto simp: io_read32_Inr)
  have t6: "io_trace s' = io_trace s5 @ [Wr (rng s5 + RNG_INTACK) RNG_READY]"
    by (simp add: s' io_write32_def)
  have base: "rng ?s0 = rng s" "rng s1 = rng s" "rng s2 = rng s" "rng s3 = rng s"
    "rng s4 = rng s" "rng s5 = rng s"
    by (simp_all only: b5 b4 b3 b2 b1 bi b0)
  let ?pre = "Rd (rng s + RNG_CONTROL) v # ini @ pre"
  have "io_trace s' = io_trace s @ ?pre @ [Rd (rng s + RNG_STATUS) st,
                  Rd (rng s + RNG_OUTPUT_0) w0, Rd (rng s + RNG_OUTPUT_1) w1,
                  Rd (rng s + RNG_OUTPUT_2) w2, Rd (rng s + RNG_OUTPUT_3) w3,
                  Wr (rng s + RNG_INTACK) RNG_READY]"
    by (simp only: t6 t5 t4 t3 t2 t1 ti t0 base append_assoc append_Cons append_Nil)
  moreover have "list_all (quiet (rng s)) ?pre"
    using q [unfolded base] qi by (simp add: quiet_def regmap)
  ultimately show ?thesis
    using rdy by (intro exI [of _ ?pre] exI [of _ st]) (simp add: new_trace_def)
qed

lemma read128_after_ready:
  assumes e: "eip76d_rng_is_enabled s = Inr (en, s0)"
    and p: "poll_ready (if \<not> en then eip76d_rng_init_seq s0 else s0) = Inr s1"
    and d: "dev_in s1 = v0 # v1 # v2 # v3 # rest"
  shows "eip76d_rng_read128 s =
           Inr ((v0, v1, v2, v3),
             s1\<lparr>dev_in := rest,
                io_trace := io_trace s1 @
                  [Rd (rng s + RNG_OUTPUT_0) v0, Rd (rng s + RNG_OUTPUT_1) v1,
                   Rd (rng s + RNG_OUTPUT_2) v2, Rd (rng s + RNG_OUTPUT_3) v3,
                   Wr (rng s + RNG_INTACK) RNG_READY]\<rparr>)"
    and "\<exists>tr st. io_trace s1 = tr @ [Rd (rng s + RNG_STATUS) st] \<and> st AND RNG_READY \<noteq> 0"
proof -
  let ?p = "if \<not> en then eip76d_rng_init_seq s0 else s0"
  from e have b0: "rng s0 = rng s"
    by (auto simp: is_enabled_Inr)
  have bi: "rng ?p = rng s0"
    by (simp add: init_seq_eq)
  from poll_ready_trace [OF p] obtain pre st where
    t1: "io_trace s1 = io_trace ?p @ pre @ [Rd (rng ?p + RNG_STATUS) st]"
    and b1: "rng s1 = rng ?p"
    and rdy: "st AND RNG_READY \<noteq> 0"
    by auto
  have base: "rng s1 = rng s" "rng ?p = rng s"
    by (simp_all only: b1 bi b0)
  have "io_trace s1 = (io_trace ?p @ pre) @ [Rd (rng s + RNG_STATUS) st]"
    by (simp only: t1 base append_assoc)
  with rdy show "\<exists>tr st. io_trace s1 = tr @ [Rd (rng s + RNG_STATUS) st] \<and> st AND RNG_READY \<noteq> 0"
    by blast
  have "eip76d_rng_read128 s =
           Inr ((v0, v1, v2, v3),
             s1\<lparr>dev_in := rest,
                io_trace := io_trace s1 @
                  [Rd (rng s1 + RNG_OUTPUT_0) v0, Rd (rng s1 + RNG_OUTPUT_1) v1,
                   Rd (rng s1 + RNG_OUTPUT_2) v2, Rd (rng s1 + RNG_OUTPUT_3) v3,
                   Wr (rng s1 + RNG_INTACK) RNG_READY]\<rparr>)"
    by (simp add: eip76d_rng_read128_def e p d io_read32_def io_write32_def)
  then show "eip76d_rng_read128 s =
           Inr ((v0, v1, v2, v3),
             s1\<lparr>dev_in := rest,
                io_trace := io_trace s1 @
                  [Rd (rng s + RNG_OUTPUT_0) v0, Rd (rng s + RNG_OUTPUT_1) v1,
                   Rd (rng s + RNG_OUTPUT_2) v2, Rd (rng s + RNG_OUTPUT_3) v3,
                   Wr (rng s + RNG_INTACK) RNG_READY]\<rparr>)"
    by (simp only: base)
qed

lemma poll_ready_recover:
  assumes "dev_in s = st # st' # alarm # tune # rest"
    and "st AND RNG_READY = 0" and "st' AND SHUTDOWN_OFLO \<noteq> 0"
  shows "poll_ready s =
     poll_ready (s\<lparr>dev_in := rest,
       io_trace := io_trace s @
         [Rd (rng s + RNG_STATUS) st, Rd (rng s + RNG_STATUS) st',
          Rd (rng s + RNG_ALARMSTOP) alarm, Rd (rng s + RNG_FRODETUNE) tune,
          Wr (rng s + RNG_ALARMMASK) 0, Wr (rng s + RNG_ALARMSTOP) 0,
          Wr (rng s + RNG_FRODETUNE) (tune XOR alarm),
          Wr (rng s + RNG_FROENABLE) 0xffffff,
          Wr (rng s + RNG_INTACK) SHUTDOWN_OFLO]\<rparr>)"
  using assms
  by (subst poll_ready.simps)
    (simp add: io_read32_def io_write32_def fro_recovery_def Let_def RNG_FRO_MASK_value)

text \<open>
  C3: once the polling loop of a block read has observed READY (the enable check was
  answered, the loop returned, and the device answers the four OUTPUT reads), the block
  read returns after exactly five more accesses: the reads of OUTPUT_0, OUTPUT_1, OUTPUT_2
  and OUTPUT_3 at offsets 0x00, 0x04, 0x08 and 0x0C in that order, whose values are the
  four words returned, and one write of the READY bit to INTACK; the access just before
  them is the STATUS read that showed READY. Conversely every block read that returns has
  these six accesses as its last ones, and nothing before them touches an OUTPUT register
  or acknowledges READY.
\<close>

theorem read128_drains_then_acks:
  "(eip76d_rng_is_enabled s = Inr (en, s0) \<longrightarrow>
    poll_ready (if \<not> en then eip76d_rng_init_seq s0 else s0) = Inr s1 \<longrightarrow>
    dev_in s1 = v0 # v1 # v2 # v3 # rest \<longrightarrow>
      eip76d_rng_read128 s =
        Inr ((v0, v1, v2, v3),
          s1\<lparr>dev_in := rest,
             io_trace := io_trace s1 @
               [Rd (rng s + RNG_OUTPUT_0) v0, Rd (rng s + RNG_OUTPUT_1) v1,
                Rd (rng s + RNG_OUTPUT_2) v2, Rd (rng s + RNG_OUTPUT_3) v3,
                Wr (rng s + RNG_INTACK) RNG_READY]\<rparr>)
      \<and> (\<exists>tr st. io_trace s1 = tr @ [Rd (rng s + RNG_STATUS) st] \<and> st AND RNG_READY \<noteq> 0))
   \<and> (eip76d_rng_read128 s = Inr ((w0, w1, w2, w3), s') \<longrightarrow>
      (\<exists>pre st. new_trace s s' =
           pre @ [Rd (rng s + RNG_STATUS) st,
                  Rd (rng s + RNG_OUTPUT_0) w0, Rd (rng s + RNG_OUTPUT_1) w1,
                  Rd (rng s + RNG_OUTPUT_2) w2, Rd (rng s + RNG_OUTPUT_3) w3,
                  Wr (rng s + RNG_INTACK) RNG_READY]
         \<and> io_trace s' = io_trace s @ new_trace s s'
         \<and> st AND RNG_READY \<noteq> 0
         \<and> list_all (quiet (rng s)) pre))"
proof (intro conjI impI)
  assume "eip76d_rng_is_enabled s = Inr (en, s0)"
    and "poll_ready (if \<not> en then eip76d_rng_init_seq s0 else s0) = Inr s1"
    and "dev_in s1 = v0 # v1 # v2 # v3 # rest"
  then show "eip76d_rng_read128 s =
        Inr ((v0, v1, v2, v3),
          s1\<lparr>dev_in := rest,
             io_trace := io_trace s1 @
               [Rd (rng s + RNG_OUTPUT_0) v0, Rd (rng s + RNG_OUTPUT_1) v1,
                Rd (rng s + RNG_OUTPUT_2) v2, Rd (rng s + RNG_OUTPUT_3) v3,
                Wr (rng s + RNG_INTACK) RNG_READY]\<rparr>)"
    and "\<exists>tr st. io_trace s1 = tr @ [Rd (rng s + RNG_STATUS) st] \<and> st AND RNG_READY \<noteq> 0"
    by (rule read128_after_ready)+
next
  assume "eip76d_rng_read128 s = Inr ((w0, w1, w2, w3), s')"
  then show "\<exists>pre st. new_trace s s' =
           pre @ [Rd (rng s + RNG_STATUS) st,
                  Rd (rng s + RNG_OUTPUT_0) w0, Rd (rng s + RNG_OUTPUT_1) w1,
                  Rd (rng s + RNG_OUTPUT_2) w2, Rd (rng s + RNG_OUTPUT_3) w3,
                  Wr (rng s + RNG_INTACK) RNG_READY]
         \<and> io_trace s' = io_trace s @ new_trace s s'
         \<and> st AND RNG_READY \<noteq> 0
         \<and> list_all (quiet (rng s)) pre"
    by (rule read128_trace)
qed

theorem read128_drains_then_acks_witness:
  "eip76d_rng_is_enabled (boot_state zero_ram s3_script) =
     Inr (True, (boot_state zero_ram (tl s3_script))\<lparr>io_trace := [Rd 0x14 0x400]\<rparr>)
   \<and> poll_ready ((boot_state zero_ram (tl s3_script))\<lparr>io_trace := [Rd 0x14 0x400]\<rparr>) =
       Inr s3_polled
   \<and> eip76d_rng_read128 (boot_state zero_ram s3_script) =
       Inr ((0xDEADBEEF, 0, 0, 0),
         s3_polled\<lparr>dev_in := [], io_trace := io_trace s3_polled @
           [Rd 0 0xDEADBEEF, Rd 4 0, Rd 8 0, Rd 0xC 0, Wr 0x10 1]\<rparr>)
   \<and> (\<exists>pre st. new_trace (boot_state zero_ram s3_script)
         (s3_polled\<lparr>dev_in := [], io_trace := io_trace s3_polled @
           [Rd 0 0xDEADBEEF, Rd 4 0, Rd 8 0, Rd 0xC 0, Wr 0x10 1]\<rparr>) =
         pre @ [Rd 0x10 st, Rd 0 0xDEADBEEF, Rd 4 0, Rd 8 0, Rd 0xC 0, Wr 0x10 1]
       \<and> st AND 1 \<noteq> 0 \<and> list_all (quiet 0) pre)"
proof -
  let ?s = "boot_state zero_ram s3_script"
  let ?p = "(boot_state zero_ram (tl s3_script))\<lparr>io_trace := [Rd 0x14 0x400]\<rparr>"
  let ?s' = "s3_polled\<lparr>dev_in := [], io_trace := io_trace s3_polled @
           [Rd 0 0xDEADBEEF, Rd 4 0, Rd 8 0, Rd 0xC 0, Wr 0x10 1]\<rparr>"
  have b: "rng ?s = 0"
    by (simp add: boot_state_def)
  have e: "eip76d_rng_is_enabled ?s = Inr (True, ?p)"
    by (simp add: eip76d_rng_is_enabled_def io_read32_def boot_state_def s3_script_def regmap)
  have "poll_ready ?p = poll_ready (?p\<lparr>dev_in := [1, 0xDEADBEEF, 0, 0, 0],
       io_trace := io_trace ?p @
         [Rd (rng ?p + RNG_STATUS) 0, Rd (rng ?p + RNG_STATUS) 2,
          Rd (rng ?p + RNG_ALARMSTOP) 0xA5, Rd (rng ?p + RNG_FRODETUNE) 0,
          Wr (rng ?p + RNG_ALARMMASK) 0, Wr (rng ?p + RNG_ALARMSTOP) 0,
          Wr (rng ?p + RNG_FRODETUNE) (0 XOR 0xA5),
          Wr (rng ?p + RNG_FROENABLE) 0xffffff,
          Wr (rng ?p + RNG_INTACK) SHUTDOWN_OFLO]\<rparr>)"
    by (rule poll_ready_recover) (simp_all add: boot_state_def s3_script_def regmap)
  also have "\<dots> = Inr s3_polled"
    by (subst poll_ready_now [where st = 1 and rest = "[0xDEADBEEF, 0, 0, 0]"])
      (simp_all add: boot_state_def s3_polled_def regmap)
  finally have p: "poll_ready (if \<not> True then eip76d_rng_init_seq ?p else ?p) = Inr s3_polled"
    by simp
  have d: "dev_in s3_polled = 0xDEADBEEF # 0 # 0 # 0 # []"
    by (simp add: s3_polled_def boot_state_def)
  note inst = read128_drains_then_acks [of ?s True ?p s3_polled "0xDEADBEEF" 0 0 0 "[]"
      "0xDEADBEEF" 0 0 0 ?s']
  from inst e p d have r: "eip76d_rng_read128 ?s =
      Inr ((0xDEADBEEF, 0, 0, 0),
        s3_polled\<lparr>dev_in := [], io_trace := io_trace s3_polled @
          [Rd (rng ?s + RNG_OUTPUT_0) 0xDEADBEEF, Rd (rng ?s + RNG_OUTPUT_1) 0,
           Rd (rng ?s + RNG_OUTPUT_2) 0, Rd (rng ?s + RNG_OUTPUT_3) 0,
           Wr (rng ?s + RNG_INTACK) RNG_READY]\<rparr>)"
    by blast
  then have r': "eip76d_rng_read128 ?s = Inr ((0xDEADBEEF, 0, 0, 0), ?s')"
    by (simp add: b regmap)
  from inst r' obtain pre st where
    "new_trace ?s ?s' = pre @ [Rd (rng ?s + RNG_STATUS) st,
                  Rd (rng ?s + RNG_OUTPUT_0) 0xDEADBEEF, Rd (rng ?s + RNG_OUTPUT_1) 0,
                  Rd (rng ?s + RNG_OUTPUT_2) 0, Rd (rng ?s + RNG_OUTPUT_3) 0,
                  Wr (rng ?s + RNG_INTACK) RNG_READY]"
    "st AND RNG_READY \<noteq> 0" "list_all (quiet (rng ?s)) pre"
    by blast
  then have "\<exists>pre st. new_trace ?s ?s' =
         pre @ [Rd 0x10 st, Rd 0 0xDEADBEEF, Rd 4 0, Rd 8 0, Rd 0xC 0, Wr 0x10 1]
       \<and> st AND 1 \<noteq> 0 \<and> list_all (quiet 0) pre"
    by (intro exI [of _ pre] exI [of _ st]) (simp add: b regmap)
  with e p r' show ?thesis
    by simp
qed

text \<open>
  C4: when an iteration of the polling loop finds READY clear and then reads STATUS with
  SHUTDOWN_OFLO (bit 1) set, it reads ALARMSTOP and FRODETUNE, writes ALARMMASK = 0,
  ALARMSTOP = 0, FRODETUNE = tune XOR alarm, FROENABLE = 0x00FFFFFF and INTACK =
  SHUTDOWN_OFLO in that order, and goes on polling; with ALARMSTOP = 0xA5 and
  FRODETUNE = 0 the value written to FRODETUNE is 0xA5.
\<close>

theorem poll_recovers_on_shutdown_oflo:
  assumes "dev_in s = st # st' # alarm # tune # rest"
    and "st AND RNG_READY = 0" and "st' AND SHUTDOWN_OFLO \<noteq> 0"
  shows "poll_ready s =
     poll_ready (s\<lparr>dev_in := rest,
       io_trace := io_trace s @
         [Rd (rng s + RNG_STATUS) st, Rd (rng s + RNG_STATUS) st',
          Rd (rng s + RNG_ALARMSTOP) alarm, Rd (rng s + RNG_FRODETUNE) tune,
          Wr (rng s + RNG_ALARMMASK) 0, Wr (rng s + RNG_ALARMSTOP) 0,
          Wr (rng s + RNG_FRODETUNE) (tune XOR alarm),
          Wr (rng s + RNG_FROENABLE) 0xffffff,
          Wr (rng s + RNG_INTACK) SHUTDOWN_OFLO]\<rparr>)
     \<and> bit SHUTDOWN_OFLO 1
     \<and> (alarm = 0xA5 \<and> tune = 0 \<longrightarrow> tune XOR alarm = 0xA5)"
proof -
  have "bit SHUTDOWN_OFLO 1"
    by (simp add: regmap)
  moreover have "poll_ready s = poll_ready (s\<lparr>dev_in := rest,
       io_trace := io_trace s @
         [Rd (rng s + RNG_STATUS) st, Rd (rng s + RNG_STATUS) st',
          Rd (rng s + RNG_ALARMSTOP) alarm, Rd (rng s + RNG_FRODETUNE) tune,
          Wr (rng s + RNG_ALARMMASK) 0, Wr (rng s + RNG_ALARMSTOP) 0,
          Wr (rng s + RNG_FRODETUNE) (tune XOR alarm),
          Wr (rng s + RNG_FROENABLE) 0xffffff,
          Wr (rng s + RNG_INTACK) SHUTDOWN_OFLO]\<rparr>)"
    using assms
    by (subst poll_ready.simps)
      (simp add: io_read32_def io_write32_def fro_recovery_def Let_def RNG_FRO_MASK_value)
  ultimately show ?thesis by simp
qed

theorem poll_recovers_on_shutdown_oflo_witness:
  "poll_ready (boot_state zero_ram [0, 2, 0xA5, 0, 1]) =
     Inr ((boot_state zero_ram [])\<lparr>io_trace :=
       [Rd 0x10 0, Rd 0x10 2, Rd 0x2C 0xA5, Rd 0x24 0,
        Wr 0x28 0, Wr 0x2C 0, Wr 0x24 0xA5, Wr 0x20 0xffffff, Wr 0x10 2,
        Rd 0x10 1]\<rparr>)"
  using poll_recovers_on_shutdown_oflo [of "boot_state zero_ram [0, 2, 0xA5, 0, 1]" 0 2 "0xA5" 0 "[1]"]
  by (simp add: boot_state_def regmap poll_ready_now)

subsection \<open>Byte FIFO adapter: one refill, one byte, the loop\<close>

lemma quiet_no_output:
  "list_all (quiet base) pre \<Longrightarrow> block_reads base pre = 0 \<and> entropy base pre = []"
proof (induction pre)
  case Nil
  then show ?case by (simp add: block_reads_def entropy_def)
next
  case (Cons e pre)
  then show ?case
    by (cases e) (auto simp: block_reads_def entropy_def quiet_def)
qed

lemma block_reads_append [simp]:
  "block_reads base (t @ u) = block_reads base t + block_reads base u"
  by (simp add: block_reads_def)

lemma entropy_append [simp]: "entropy base (t @ u) = entropy base t @ entropy base u"
  by (simp add: entropy_def)

lemma read128_frame:
  assumes "eip76d_rng_read128 s = Inr (ws, s')"
  shows "rng s' = rng s \<and> fifo s' = fifo s \<and> fifo_pos s' = fifo_pos s \<and> ram s' = ram s"
proof -
  from assms obtain en s0 s1 w0 s2 w1 s3 w2 s4 w3 s5 where
    e: "eip76d_rng_is_enabled s = Inr (en, s0)"
    and p: "poll_ready (if \<not> en then eip76d_rng_init_seq s0 else s0) = Inr s1"
      (is "poll_ready ?s0 = _")
    and r0: "io_read32 (rng s1 + RNG_OUTPUT_0) s1 = Inr (w0, s2)"
    and r1: "io_read32 (rng s2 + RNG_OUTPUT_1) s2 = Inr (w1, s3)"
    and r2: "io_read32 (rng s3 + RNG_OUTPUT_2) s3 = Inr (w2, s4)"
    and r3: "io_read32 (rng s4 + RNG_OUTPUT_3) s4 = Inr (w3, s5)"
    and s': "s' = io_write32 (rng s5 + RNG_INTACK) RNG_READY s5"
    by (elim read128_stages)
  from e have f0: "rng s0 = rng s \<and> fifo s0 = fifo s \<and> fifo_pos s0 = fifo_pos s \<and> ram s0 = ram s"
    by (auto simp: is_enabled_Inr)
  have fi: "rng ?s0 = rng s0 \<and> fifo ?s0 = fifo s0 \<and> fifo_pos ?s0 = fifo_pos s0 \<and> ram ?s0 = ram s0"
    by (simp add: init_seq_eq)
  from poll_ready_trace [OF p]
  have f1: "rng s1 = rng ?s0 \<and> fifo s1 = fifo ?s0 \<and> fifo_pos s1 = fifo_pos ?s0 \<and> ram s1 = ram ?s0"
    by auto
  from r0 have f2: "rng s2 = rng s1 \<and> fifo s2 = fifo s1 \<and> fifo_pos s2 = fifo_pos s1 \<and> ram s2 = ram s1"
    by (auto simp: io_read32_Inr)
  from r1 have f3: "rng s3 = rng s2 \<and> fifo s3 = fifo s2 \<and> fifo_pos s3 = fifo_pos s2 \<and> ram s3 = ram s2"
    by (auto simp: io_read32_Inr)
  from r2 have f4: "rng s4 = rng s3 \<and> fifo s4 = fifo s3 \<and> fifo_pos s4 = fifo_pos s3 \<and> ram s4 = ram s3"
    by (auto simp: io_read32_Inr)
  from r3 have f5: "rng s5 = rng s4 \<and> fifo s5 = fifo s4 \<and> fifo_pos s5 = fifo_pos s4 \<and> ram s5 = ram s4"
    by (auto simp: io_read32_Inr)
  have f6: "rng s' = rng s5 \<and> fifo s' = fifo s5 \<and> fifo_pos s' = fifo_pos s5 \<and> ram s' = ram s5"
    by (simp add: s' io_write32_def)
  show ?thesis
    by (simp only: f6 f5 f4 f3 f2 f1 fi f0 simp_thms)
qed

lemma map_fifo_store:
  "map (store_val 3 w3 (store_val 2 w2 (store_val 1 w1 (store_val 0 w0 f)))) [0 ..< 16] =
     le_bytes w0 @ le_bytes w1 @ le_bytes w2 @ le_bytes w3"
  by (simp add: store_val_def le_bytes_def upt_rec [of _ "numeral _"] upt_rec [of 0])

lemma refill_stages:
  assumes "refill s = Inr s1"
  obtains w0 w1 w2 w3 s' where
    "eip76d_rng_read128 s = Inr ((w0, w1, w2, w3), s')"
    "s1 = s'\<lparr>fifo := store_val 3 w3 (store_val 2 w2
                 (store_val 1 w1 (store_val 0 w0 (fifo s'))))\<rparr>"
proof (cases "eip76d_rng_read128 s")
  case (Inl e)
  with assms show ?thesis by (simp add: refill_def)
next
  case (Inr p)
  obtain w0 w1 w2 w3 s' where p: "p = ((w0, w1, w2, w3), s')"
    by (metis prod.exhaust)
  with Inr assms that show ?thesis
    by (simp add: refill_def)
qed

lemma block_tail_counts:
  assumes "list_all (quiet base) pre"
  shows "block_reads base (pre @ [Rd (base + RNG_STATUS) st,
                  Rd (base + RNG_OUTPUT_0) w0, Rd (base + RNG_OUTPUT_1) w1,
                  Rd (base + RNG_OUTPUT_2) w2, Rd (base + RNG_OUTPUT_3) w3,
                  Wr (base + RNG_INTACK) RNG_READY]) = 1"
    and "entropy base (pre @ [Rd (base + RNG_STATUS) st,
                  Rd (base + RNG_OUTPUT_0) w0, Rd (base + RNG_OUTPUT_1) w1,
                  Rd (base + RNG_OUTPUT_2) w2, Rd (base + RNG_OUTPUT_3) w3,
                  Wr (base + RNG_INTACK) RNG_READY]) =
          le_bytes w0 @ le_bytes w1 @ le_bytes w2 @ le_bytes w3"
proof -
  from quiet_no_output [OF assms]
  have z: "block_reads base pre = 0" "entropy base pre = []"
    by simp_all
  have "block_reads base [Rd (base + RNG_STATUS) st,
                  Rd (base + RNG_OUTPUT_0) w0, Rd (base + RNG_OUTPUT_1) w1,
                  Rd (base + RNG_OUTPUT_2) w2, Rd (base + RNG_OUTPUT_3) w3,
                  Wr (base + RNG_INTACK) RNG_READY] = 1"
    by (simp add: block_reads_def regmap)
  then show "block_reads base (pre @ [Rd (base + RNG_STATUS) st,
                  Rd (base + RNG_OUTPUT_0) w0, Rd (base + RNG_OUTPUT_1) w1,
                  Rd (base + RNG_OUTPUT_2) w2, Rd (base + RNG_OUTPUT_3) w3,
                  Wr (base + RNG_INTACK) RNG_READY]) = 1"
    by (simp only: block_reads_append z)
  have "entropy base [Rd (base + RNG_STATUS) st,
                  Rd (base + RNG_OUTPUT_0) w0, Rd (base + RNG_OUTPUT_1) w1,
                  Rd (base + RNG_OUTPUT_2) w2, Rd (base + RNG_OUTPUT_3) w3,
                  Wr (base + RNG_INTACK) RNG_READY] =
          le_bytes w0 @ le_bytes w1 @ le_bytes w2 @ le_bytes w3"
    by (simp add: entropy_def regmap)
  then show "entropy base (pre @ [Rd (base + RNG_STATUS) st,
                  Rd (base + RNG_OUTPUT_0) w0, Rd (base + RNG_OUTPUT_1) w1,
                  Rd (base + RNG_OUTPUT_2) w2, Rd (base + RNG_OUTPUT_3) w3,
                  Wr (base + RNG_INTACK) RNG_READY]) =
          le_bytes w0 @ le_bytes w1 @ le_bytes w2 @ le_bytes w3"
    by (simp only: entropy_append z append_Nil)
qed

lemma refill_spec:
  assumes "refill s = Inr s1"
  shows "\<exists>t. io_trace s1 = io_trace s @ t \<and> block_reads (rng s) t = 1
           \<and> map (fifo s1) [0 ..< 16] = entropy (rng s) t
           \<and> rng s1 = rng s \<and> fifo_pos s1 = fifo_pos s \<and> ram s1 = ram s"
proof -
  from assms obtain w0 w1 w2 w3 s' where
    r: "eip76d_rng_read128 s = Inr ((w0, w1, w2, w3), s')"
    and s1: "s1 = s'\<lparr>fifo := store_val 3 w3 (store_val 2 w2
                 (store_val 1 w1 (store_val 0 w0 (fifo s'))))\<rparr>"
    by (rule refill_stages)
  from read128_trace [OF r] obtain pre st where
    t: "new_trace s s' = pre @ [Rd (rng s + RNG_STATUS) st,
                  Rd (rng s + RNG_OUTPUT_0) w0, Rd (rng s + RNG_OUTPUT_1) w1,
                  Rd (rng s + RNG_OUTPUT_2) w2, Rd (rng s + RNG_OUTPUT_3) w3,
                  Wr (rng s + RNG_INTACK) RNG_READY]"
    and a: "io_trace s' = io_trace s @ new_trace s s'"
    and q: "list_all (quiet (rng s)) pre"
    by blast
  have c: "block_reads (rng s) (new_trace s s') = 1"
    unfolding t by (rule block_tail_counts(1) [OF q])
  have e: "entropy (rng s) (new_trace s s') =
      le_bytes w0 @ le_bytes w1 @ le_bytes w2 @ le_bytes w3"
    unfolding t by (rule block_tail_counts(2) [OF q])
  have "fifo s1 = store_val 3 w3 (store_val 2 w2 (store_val 1 w1 (store_val 0 w0 (fifo s'))))"
    unfolding s1 by simp
  then have f: "map (fifo s1) [0 ..< 16] = le_bytes w0 @ le_bytes w1 @ le_bytes w2 @ le_bytes w3"
    by (simp only: map_fifo_store)
  have g: "io_trace s1 = io_trace s'" "rng s1 = rng s'" "fifo_pos s1 = fifo_pos s'" "ram s1 = ram s'"
    unfolding s1 by simp_all
  from read128_frame [OF r] have h: "rng s' = rng s" "fifo_pos s' = fifo_pos s" "ram s' = ram s"
    by simp_all
  show ?thesis
    by (intro exI [of _ "new_trace s s'"] conjI) (simp_all only: g h a c e f)
qed

lemma pending_step:
  assumes "0 < c" "c < 16"
  shows "f c # (if (c + 1) mod 16 = 0 then [] else map f [(c + 1) mod 16 ..< 16]) = map f [c ..< 16]"
proof (cases "c = 15")
  case True
  then show ?thesis by (simp add: upt_rec [of 15])
next
  case False
  with assms have "c + 1 < 16" by simp
  then have m: "(c + 1) mod 16 = c + 1" by simp
  have "[c ..< 16] = c # [c + 1 ..< 16]"
    using assms by (simp add: upt_conv_Cons)
  then show ?thesis
    unfolding m by simp
qed

lemma fetch_byte_spec:
  assumes "fetch_byte buf pos s = Inr s'" and "fifo_pos s < 16"
  shows "\<exists>t b. io_trace s' = io_trace s @ t \<and> rng s' = rng s
           \<and> ram s' = (ram s)(buf + of_nat pos := b)
           \<and> fifo_pos s' = (fifo_pos s + 1) mod 16
           \<and> block_reads (rng s) t = (if fifo_pos s = 0 then 1 else 0)
           \<and> b # pending s' = pending s @ entropy (rng s) t"
proof (cases "fifo_pos s = 0")
  case True
  with assms obtain s1 where r: "refill s = Inr s1"
    and s': "s' = s1\<lparr>ram := (ram s1)(buf + of_nat pos := fifo s1 (fifo_pos s1)),
                    fifo_pos := (fifo_pos s1 + 1) mod 16\<rparr>"
    by (auto simp: fetch_byte_def split: sum.splits if_splits)
  from refill_spec [OF r] obtain t where t: "io_trace s1 = io_trace s @ t"
    "block_reads (rng s) t = 1" "map (fifo s1) [0 ..< 16] = entropy (rng s) t"
    "rng s1 = rng s" "fifo_pos s1 = fifo_pos s" "ram s1 = ram s"
    by blast
  have u: "[0 ..< 16] = 0 # [1 ..< 16]"
    by (simp add: upt_conv_Cons)
  have "fifo s1 0 # map (fifo s1) [1 ..< 16] = entropy (rng s) t"
    using t(3) unfolding u by simp
  moreover have "pending s' = map (fifo s1) [1 ..< 16]"
    using True t(5) by (simp add: s' pending_def)
  moreover have "pending s = []"
    using True by (simp add: pending_def)
  moreover have "fifo_pos s' = (fifo_pos s + 1) mod 16" "rng s' = rng s"
    "io_trace s' = io_trace s @ t" "ram s' = (ram s)(buf + of_nat pos := fifo s1 0)"
    using True t by (simp_all add: s')
  ultimately show ?thesis
    using True t(2) by (intro exI [of _ t] exI [of _ "fifo s1 0"]) simp
next
  case False
  with assms have s': "s' = s\<lparr>ram := (ram s)(buf + of_nat pos := fifo s (fifo_pos s)),
                    fifo_pos := (fifo_pos s + 1) mod 16\<rparr>"
    by (auto simp: fetch_byte_def split: if_splits)
  have "pending s' = (if (fifo_pos s + 1) mod 16 = 0 then []
          else map (fifo s) [(fifo_pos s + 1) mod 16 ..< 16])"
    unfolding s' pending_def by simp
  moreover have "pending s = map (fifo s) [fifo_pos s ..< 16]"
    using False by (simp add: pending_def)
  ultimately have "fifo s (fifo_pos s) # pending s' = pending s"
    using pending_step [of "fifo_pos s" "fifo s"] False assms(2) by simp
  moreover have "fifo_pos s' = (fifo_pos s + 1) mod 16" "rng s' = rng s"
    "io_trace s' = io_trace s @ []" "ram s' = (ram s)(buf + of_nat pos := fifo s (fifo_pos s))"
    by (simp_all add: s')
  moreover have "block_reads (rng s) [] = 0" "entropy (rng s) [] = []"
    by (simp_all add: block_reads_def entropy_def)
  ultimately show ?thesis
    using False by (intro exI [of _ "[]"] exI [of _ "fifo s (fifo_pos s)"]) simp
qed

lemma refill_count_step:
  assumes "c < 16"
  shows "(if c = 0 then 1 else 0) + (((c + 1) mod 16 + n + 15) div 16 - ((c + 1) mod 16 + 15) div 16)
         = (c + (n + 1) + 15) div 16 - (c + 15) div (16 :: nat)"
proof (cases "c = 15")
  case True
  then show ?thesis by simp
next
  case False
  with assms have m: "(c + 1) mod 16 = c + 1" by simp
  show ?thesis
  proof (cases "c = 0")
    case True
    then show ?thesis by simp
  next
    case F: False
    with assms have "(c + 15) div 16 = 1" "(c + 1 + 15) div 16 = 1" by simp_all
    with F show ?thesis unfolding m by (simp add: add.assoc)
  qed
qed

lemma cursor_step: "((c + 1) mod 16 + k) mod 16 = (c + (k + 1)) mod (16 :: nat)"
  by presburger

lemma fetch_loop_spec:
  assumes "fetch_loop buf len pos s = Inr s'" and "fifo_pos s < 16"
  shows "\<exists>t bs. io_trace s' = io_trace s @ t \<and> rng s' = rng s
           \<and> length bs = len - pos
           \<and> ram s' = write_bytes (ram s) buf pos bs
           \<and> fifo_pos s' = (fifo_pos s + (len - pos)) mod 16
           \<and> block_reads (rng s) t =
               (fifo_pos s + (len - pos) + 15) div 16 - (fifo_pos s + 15) div 16
           \<and> bs @ pending s' = pending s @ entropy (rng s) t"
  using assms
proof (induction buf len pos s rule: fetch_loop.induct)
  case (1 buffer len buffer_pos s)
  show ?case
  proof (cases "buffer_pos < len")
    case False
    with "1.prems"(1) have "s' = s"
      by (subst (asm) fetch_loop.simps) simp
    with False "1.prems"(2) show ?thesis
      by (intro exI [of _ "[]"]) (simp add: block_reads_def entropy_def)
  next
    case True
    with "1.prems"(1) obtain s1 where fb: "fetch_byte buffer buffer_pos s = Inr s1"
      and fl: "fetch_loop buffer len (buffer_pos + 1) s1 = Inr s'"
      by (subst (asm) fetch_loop.simps) (auto split: sum.splits)
    from fetch_byte_spec [OF fb "1.prems"(2)] obtain t1 b where
      a1: "io_trace s1 = io_trace s @ t1" and a2: "rng s1 = rng s"
      and a3: "ram s1 = (ram s)(buffer + of_nat buffer_pos := b)"
      and a4: "fifo_pos s1 = (fifo_pos s + 1) mod 16"
      and a5: "block_reads (rng s) t1 = (if fifo_pos s = 0 then 1 else 0)"
      and a6: "b # pending s1 = pending s @ entropy (rng s) t1"
      by blast
    have lt: "fifo_pos s1 < 16"
      by (simp add: a4)
    from "1.IH" [OF True fb fl lt] obtain t2 bs2 where
      b1: "io_trace s' = io_trace s1 @ t2" and b2: "rng s' = rng s1"
      and b3: "length bs2 = len - (buffer_pos + 1)"
      and b4: "ram s' = write_bytes (ram s1) buffer (buffer_pos + 1) bs2"
      and b5: "fifo_pos s' = (fifo_pos s1 + (len - (buffer_pos + 1))) mod 16"
      and b6: "block_reads (rng s1) t2 =
               (fifo_pos s1 + (len - (buffer_pos + 1)) + 15) div 16 - (fifo_pos s1 + 15) div 16"
      and b7: "bs2 @ pending s' = pending s1 @ entropy (rng s1) t2"
      by blast
    from True have n: "len - buffer_pos = (len - (buffer_pos + 1)) + 1"
      by simp
    have c1: "io_trace s' = io_trace s @ (t1 @ t2)"
      by (simp add: a1 b1)
    have c2: "rng s' = rng s"
      by (simp add: a2 b2)
    have c3: "length (b # bs2) = len - buffer_pos"
      using True by (simp add: b3)
    have c4: "ram s' = write_bytes (ram s) buffer buffer_pos (b # bs2)"
      by (simp add: b4 a3)
    have c5: "fifo_pos s' = (fifo_pos s + (len - buffer_pos)) mod 16"
      unfolding b5 a4 n by (rule cursor_step)
    have c6: "block_reads (rng s) (t1 @ t2) =
               (fifo_pos s + (len - buffer_pos) + 15) div 16 - (fifo_pos s + 15) div 16"
      unfolding n block_reads_append a5 b6 [unfolded a2 a4]
      by (rule refill_count_step [OF "1.prems"(2)])
    have "(b # bs2) @ pending s' = (b # pending s1) @ entropy (rng s) t2"
      using b7 by (simp add: a2)
    then have c7: "(b # bs2) @ pending s' = pending s @ entropy (rng s) (t1 @ t2)"
      unfolding a6 by simp
    show ?thesis
      by (intro exI [of _ "t1 @ t2"] exI [of _ "b # bs2"] conjI c1 c2 c3 c4 c5 c6 c7)
  qed
qed

subsection \<open>The bytes stored in the destination\<close>

lemma of_nat_64_inj:
  assumes "a < 2 ^ 64" "b < 2 ^ 64" "(of_nat a :: 64 word) = of_nat b"
  shows "a = b"
proof -
  from assms(3) have "take_bit 64 a = take_bit 64 b"
    by (simp add: word_of_nat_eq_iff)
  with assms(1,2) show ?thesis
    by (simp add: take_bit_nat_eq_self)
qed

lemma write_bytes_frame:
  "\<forall>i<length bs. a \<noteq> buf + of_nat (pos + i) \<Longrightarrow> write_bytes m buf pos bs a = m a"
proof (induction bs arbitrary: m pos)
  case Nil
  then show ?case by simp
next
  case (Cons b bs)
  have "\<forall>i<length bs. a \<noteq> buf + of_nat (pos + 1 + i)"
  proof (intro allI impI)
    fix i assume "i < length bs"
    with Cons.prems have "a \<noteq> buf + of_nat (pos + Suc i)" by auto
    then show "a \<noteq> buf + of_nat (pos + 1 + i)" by simp
  qed
  from Cons.IH [OF this] have "write_bytes (m(buf + of_nat pos := b)) buf (pos + 1) bs a
      = (m(buf + of_nat pos := b)) a" .
  moreover from Cons.prems have "a \<noteq> buf + of_nat (pos + 0)" by blast
  ultimately show ?case by simp
qed

lemma write_bytes_get:
  "pos + length bs \<le> 2 ^ 64 \<Longrightarrow> i < length bs \<Longrightarrow>
     write_bytes m buf pos bs (buf + of_nat (pos + i)) = bs ! i"
proof (induction bs arbitrary: m pos i)
  case Nil
  then show ?case by simp
next
  case (Cons b bs)
  show ?case
  proof (cases i)
    case 0
    have "\<forall>j<length bs. buf + of_nat pos \<noteq> buf + of_nat (pos + 1 + j)"
    proof (intro allI impI notI)
      fix j assume j: "j < length bs" and e: "buf + of_nat pos = buf + of_nat (pos + 1 + j)"
      from e have "(of_nat pos :: 64 word) = of_nat (pos + 1 + j)" by simp
      moreover from j Cons.prems(1) have "pos < 2 ^ 64" "pos + 1 + j < 2 ^ 64" by simp_all
      ultimately have "pos = pos + 1 + j" by (rule of_nat_64_inj [rotated 2])
      then show False by simp
    qed
    from write_bytes_frame [OF this] 0 show ?thesis by simp
  next
    case (Suc i')
    with Cons.prems have "pos + 1 + length bs \<le> 2 ^ 64" "i' < length bs" by simp_all
    from Cons.IH [OF this] Suc show ?thesis by simp
  qed
qed

lemma delivered_write_bytes:
  assumes "ram s' = write_bytes m buf 0 bs" "length bs = n" "n \<le> 2 ^ 64"
  shows "delivered buf n s' = bs"
proof (rule nth_equalityI)
  show "length (delivered buf n s') = length bs"
    by (simp add: delivered_def assms(2))
next
  fix i assume "i < length (delivered buf n s')"
  then have i: "i < length bs" by (simp add: delivered_def assms(2))
  with assms write_bytes_get [of 0 bs i m buf] show "delivered buf n s' ! i = bs ! i"
    by (simp add: delivered_def)
qed

subsection \<open>Running the loop on a prompt device\<close>

lemma fetch_byte_Inr_lt: "fetch_byte buf pos s = Inr s' \<Longrightarrow> fifo_pos s < 16"
proof (cases "fifo_pos s = 0")
  case True
  then show ?thesis by simp
next
  case False
  assume "fetch_byte buf pos s = Inr s'"
  with False show ?thesis
    by (simp add: fetch_byte_def split: if_splits)
qed

lemma fetch_byte_refill:
  assumes "fifo_pos s = 0" "dev_in s = ctrl # st # w0 # w1 # w2 # w3 # rest"
    "st AND RNG_READY \<noteq> 0"
  shows "fetch_byte buf pos s =
     Inr (s\<lparr>dev_in := rest,
            io_trace := io_trace s @ block_trace (rng s) ctrl st w0 w1 w2 w3,
            fifo := store_val 3 w3 (store_val 2 w2 (store_val 1 w1 (store_val 0 w0 (fifo s)))),
            ram := (ram s)(buf + of_nat pos := ucast w0),
            fifo_pos := 1\<rparr>)"
proof -
  have "store_val 3 w3 (store_val 2 w2 (store_val 1 w1 (store_val 0 w0 (fifo s)))) 0 = ucast w0"
    by (simp add: store_val_def)
  then show ?thesis
    using assms(1) by (simp add: fetch_byte_def refill_def read128_ready [OF assms(2,3)] block_trace_def)
qed

lemma fetch_byte_plain:
  assumes "0 < fifo_pos s" "fifo_pos s < 16"
  shows "fetch_byte buf pos s =
     Inr (s\<lparr>ram := (ram s)(buf + of_nat pos := fifo s (fifo_pos s)),
            fifo_pos := (fifo_pos s + 1) mod 16\<rparr>)"
  using assms by (simp add: fetch_byte_def)

lemma fetch_loop_returns:
  assumes "fifo_pos s < 16"
    and "ready_script ((fifo_pos s + (len - pos) + 15) div 16 - (fifo_pos s + 15) div 16) (dev_in s)"
  shows "\<exists>s'. fetch_loop buf len pos s = Inr s'"
  using assms
proof (induction buf len pos s rule: fetch_loop.induct)
  case (1 buffer len buffer_pos s)
  show ?case
  proof (cases "buffer_pos < len")
    case False
    then show ?thesis
      by (subst fetch_loop.simps) simp
  next
    case True
    then have n: "len - buffer_pos = (len - (buffer_pos + 1)) + 1"
      by simp
    let ?k = "((fifo_pos s + 1) mod 16 + (len - (buffer_pos + 1)) + 15) div 16
        - ((fifo_pos s + 1) mod 16 + 15) div 16"
    have cnt: "(fifo_pos s + (len - buffer_pos) + 15) div 16 - (fifo_pos s + 15) div 16
        = (if fifo_pos s = 0 then 1 else 0) + ?k"
      unfolding n by (rule refill_count_step [OF "1.prems"(1), symmetric])
    obtain s1 where fb: "fetch_byte buffer buffer_pos s = Inr s1"
      and p1: "fifo_pos s1 = (fifo_pos s + 1) mod 16"
      and r1: "ready_script ?k (dev_in s1)"
    proof (cases "fifo_pos s = 0")
      case True
      with "1.prems"(2) cnt have rs: "ready_script (Suc ?k) (dev_in s)"
        by simp
      then obtain ctrl st w0 w1 w2 w3 rest where
        d: "dev_in s = ctrl # st # w0 # w1 # w2 # w3 # rest"
        by (cases "(Suc ?k, dev_in s)" rule: ready_script.cases) auto
      with rs have "st AND RNG_READY \<noteq> 0" "ready_script ?k rest"
        by simp_all
      with fetch_byte_refill [OF True d, of buffer buffer_pos] True that show ?thesis
        by simp
    next
      case False
      with "1.prems"(2) cnt have "ready_script ?k (dev_in s)"
        by simp
      with fetch_byte_plain [of s buffer buffer_pos] False "1.prems"(1) that show ?thesis
        by simp
    qed
    have "fifo_pos s1 < 16"
      by (simp add: p1)
    from "1.IH" [OF True fb this] r1 p1 obtain s' where
      "fetch_loop buffer len (buffer_pos + 1) s1 = Inr s'"
      by auto
    with True fb show ?thesis
      by (subst fetch_loop.simps) simp
  qed
qed

lemma fetch_byte_refill_nth:
  assumes "fifo_pos s = 0" "6 \<le> length (dev_in s)" "(dev_in s ! 1) AND RNG_READY \<noteq> 0"
  shows "fetch_byte buf pos s =
     Inr (s\<lparr>dev_in := drop 6 (dev_in s),
            io_trace := io_trace s @ block_trace (rng s) (dev_in s ! 0) (dev_in s ! 1)
               (dev_in s ! 2) (dev_in s ! 3) (dev_in s ! 4) (dev_in s ! 5),
            fifo := store_val 3 (dev_in s ! 5) (store_val 2 (dev_in s ! 4)
               (store_val 1 (dev_in s ! 3) (store_val 0 (dev_in s ! 2) (fifo s)))),
            ram := (ram s)(buf + of_nat pos := ucast (dev_in s ! 2)),
            fifo_pos := 1\<rparr>)"
proof -
  from assms(2) obtain ctrl st w0 w1 w2 w3 rest where
    d: "dev_in s = ctrl # st # w0 # w1 # w2 # w3 # rest"
    by (cases "(Suc 0, dev_in s)" rule: ready_script.cases) auto
  with assms(3) have "st AND RNG_READY \<noteq> 0" by simp
  from fetch_byte_refill [OF assms(1) d this] show ?thesis
    by (simp add: d)
qed

subsection \<open>The whole call\<close>

lemma unat_len_bound: "unat (len :: 64 word) \<le> 2 ^ 64"
  using unsigned_less [of len, where 'a = nat] by simp

lemma fetch_loop_trivial: "\<not> pos < len \<Longrightarrow> fetch_loop buf len pos s = Inr s"
  by (subst fetch_loop.simps) simp

lemma hw_get_Inr:
  "hw_get_random_bytes buf len s = Inr (r, s') \<longleftrightarrow>
     r = TEE_SUCCESS \<and> fetch_loop buf (unat len) 0 s = Inr s'"
  by (auto simp: hw_get_random_bytes_def split: sum.splits)

lemma hw_get_spec:
  assumes "hw_get_random_bytes buf len s = Inr (r, s')" and "fifo_pos s < 16"
  shows "io_trace s' = io_trace s @ new_trace s s'"
    and "fifo_pos s' = (fifo_pos s + unat len) mod 16"
    and "block_reads (rng s) (new_trace s s') =
           (fifo_pos s + unat len + 15) div 16 - (fifo_pos s + 15) div 16"
    and "delivered buf (unat len) s' @ pending s' =
           pending s @ entropy (rng s) (new_trace s s')"
proof -
  from assms(1) have fl: "fetch_loop buf (unat len) 0 s = Inr s'"
    by (simp add: hw_get_Inr)
  from fetch_loop_spec [OF fl assms(2)] obtain t bs where
    a: "io_trace s' = io_trace s @ t" and b: "length bs = unat len"
    and c: "ram s' = write_bytes (ram s) buf 0 bs"
    and d: "fifo_pos s' = (fifo_pos s + unat len) mod 16"
    and e: "block_reads (rng s) t = (fifo_pos s + unat len + 15) div 16 - (fifo_pos s + 15) div 16"
    and f: "bs @ pending s' = pending s @ entropy (rng s) t"
    by auto
  from a have t: "new_trace s s' = t"
    by (rule new_trace_append)
  from delivered_write_bytes [OF c b unat_len_bound] have g: "delivered buf (unat len) s' = bs" .
  show "io_trace s' = io_trace s @ new_trace s s'" by (simp only: t a)
  show "fifo_pos s' = (fifo_pos s + unat len) mod 16" by (rule d)
  show "block_reads (rng s) (new_trace s s') =
           (fifo_pos s + unat len + 15) div 16 - (fifo_pos s + 15) div 16"
    by (simp only: t e)
  show "delivered buf (unat len) s' @ pending s' = pending s @ entropy (rng s) (new_trace s s')"
    by (simp only: t g f)
qed

lemma hw_get_frame:
  assumes "hw_get_random_bytes buf len s = Inr (r, s')"
  shows "\<exists>bs. length bs = unat len \<and> ram s' = write_bytes (ram s) buf 0 bs"
    and "rng s' = rng s"
proof -
  from assms have fl: "fetch_loop buf (unat len) 0 s = Inr s'"
    by (simp add: hw_get_Inr)
  have "(\<exists>bs. length bs = unat len \<and> ram s' = write_bytes (ram s) buf 0 bs) \<and> rng s' = rng s"
  proof (cases "0 < unat len")
    case False
    with fl have "s' = s"
      by (simp add: fetch_loop_trivial)
    with False show ?thesis
      by (intro conjI exI [of _ "[]"]) simp_all
  next
    case True
    with fl obtain s1 where "fetch_byte buf 0 s = Inr s1"
      by (subst (asm) fetch_loop.simps) (auto split: sum.splits)
    then have "fifo_pos s < 16"
      by (rule fetch_byte_Inr_lt)
    from fetch_loop_spec [OF fl this] show ?thesis
      by auto
  qed
  then show "\<exists>bs. length bs = unat len \<and> ram s' = write_bytes (ram s) buf 0 bs"
    and "rng s' = rng s"
    by simp_all
qed

lemma hw_get_returns:
  assumes "fifo_pos s < 16"
    and "ready_script ((fifo_pos s + unat len + 15) div 16 - (fifo_pos s + 15) div 16) (dev_in s)"
  shows "\<exists>s'. hw_get_random_bytes buf len s = Inr (TEE_SUCCESS, s')"
proof -
  from fetch_loop_returns [of s "unat len" 0 buf] assms
  obtain s' where "fetch_loop buf (unat len) 0 s = Inr s'"
    by auto
  then show ?thesis
    by (simp add: hw_get_Inr)
qed

subsection \<open>No index out of range\<close>

lemma poll_ready_not_oob: "poll_ready s \<noteq> Inl OutOfBounds"
proof (induction s rule: poll_ready.induct)
  case (1 s)
  show ?case
  proof (cases "io_read32 (rng s + RNG_STATUS) s")
    case (Inl e)
    then have "e = NoReturn" by (auto simp: io_read32_def split: list.splits)
    with Inl show ?thesis by (subst poll_ready.simps) simp
  next
    case (Inr p)
    obtain st s1 where p: "p = (st, s1)" by (cases p)
    show ?thesis
    proof (cases "st AND RNG_READY \<noteq> 0")
      case True
      with Inr p show ?thesis by (subst poll_ready.simps) simp
    next
      case False
      show ?thesis
      proof (cases "io_read32 (rng s1 + RNG_STATUS) s1")
        case (Inl e)
        then have "e = NoReturn" by (auto simp: io_read32_def split: list.splits)
        with Inl Inr p False show ?thesis by (subst poll_ready.simps) simp
      next
        case r2: (Inr q)
        obtain st' s2 where q: "q = (st', s2)" by (cases q)
        show ?thesis
        proof (cases "st' AND SHUTDOWN_OFLO \<noteq> 0")
          case True
          show ?thesis
          proof (cases "fro_recovery s2")
            case (Inl e)
            then have "e = NoReturn"
              by (auto simp: fro_recovery_def io_read32_def Let_def split: list.splits)
            with Inl Inr p False r2 q True show ?thesis by (subst poll_ready.simps) simp
          next
            case r3: (Inr s3)
            from "1.IH"(1) [OF Inr [unfolded p] refl False r2 [unfolded q] refl True r3]
            show ?thesis
              using Inr p False r2 q True r3 by (subst poll_ready.simps) simp
          qed
        next
          case F2: False
          from "1.IH"(2) [OF Inr [unfolded p] refl False r2 [unfolded q] refl F2]
          show ?thesis
            using Inr p False r2 q F2 by (subst poll_ready.simps) simp
        qed
      qed
    qed
  qed
qed

lemma io_read32_not_oob: "io_read32 a s = Inl OutOfBounds \<longleftrightarrow> False"
  by (auto simp: io_read32_def split: list.splits)

lemma is_enabled_not_oob: "eip76d_rng_is_enabled s = Inl OutOfBounds \<longleftrightarrow> False"
  by (auto simp: eip76d_rng_is_enabled_def io_read32_not_oob split: sum.splits)

lemma read128_not_oob: "eip76d_rng_read128 s \<noteq> Inl OutOfBounds"
  unfolding eip76d_rng_read128_def
  by (auto simp: io_read32_not_oob is_enabled_not_oob poll_ready_not_oob split: sum.splits)

lemma refill_not_oob: "refill s \<noteq> Inl OutOfBounds"
  using read128_not_oob [of s] by (auto simp: refill_def split: sum.splits)

lemma fetch_byte_not_oob: "fifo_pos s < 16 \<Longrightarrow> fetch_byte buf pos s \<noteq> Inl OutOfBounds"
proof (cases "fifo_pos s = 0")
  case True
  show ?thesis
  proof (cases "refill s")
    case (Inl e)
    with refill_not_oob [of s] True show ?thesis
      by (auto simp: fetch_byte_def)
  next
    case (Inr s1)
    from refill_spec [OF Inr] True have "fifo_pos s1 = 0" by auto
    with Inr True show ?thesis
      by (simp add: fetch_byte_def)
  qed
next
  case False
  assume "fifo_pos s < 16"
  with False show ?thesis
    by (simp add: fetch_byte_def)
qed

lemma fetch_loop_not_oob:
  "fifo_pos s < 16 \<Longrightarrow> fetch_loop buf len pos s \<noteq> Inl OutOfBounds"
proof (induction buf len pos s rule: fetch_loop.induct)
  case (1 buffer len buffer_pos s)
  show ?case
  proof (cases "buffer_pos < len")
    case False
    then show ?thesis by (simp add: fetch_loop_trivial)
  next
    case True
    show ?thesis
    proof (cases "fetch_byte buffer buffer_pos s")
      case (Inl e)
      with fetch_byte_not_oob [OF "1.prems", of buffer buffer_pos] True show ?thesis
        by (subst fetch_loop.simps) auto
    next
      case (Inr s1)
      from fetch_byte_spec [OF Inr "1.prems"] have "fifo_pos s1 < 16" by auto
      from "1.IH" [OF True Inr this] True Inr show ?thesis
        by (subst fetch_loop.simps) simp
    qed
  qed
qed

lemma hw_get_not_oob:
  "fifo_pos s < 16 \<Longrightarrow> hw_get_random_bytes buf len s \<noteq> Inl OutOfBounds"
  using fetch_loop_not_oob [of s buf "unat len" 0]
  by (auto simp: hw_get_random_bytes_def split: sum.splits)

subsection \<open>Scenarios\<close>

lemma started_eq:
  "started ins = \<lparr>rng = 0x2000000, fifo = (\<lambda>_. 0), fifo_pos = 0, ram = zero_ram, dev_in = ins,
     io_trace = [Wr 0x2000018 0x220005, Wr 0x2000024 0, Wr 0x2000020 0xffffff, Wr 0x2000014 0x400]\<rparr>"
  by (simp add: started_def init_eq boot_state_def regmap)

lemmas run_simps =
  hw_get_random_bytes_def fetch_loop.simps fetch_byte_refill_nth fetch_byte_plain
  block_trace_def regmap

lemma s1_run:
  "\<exists>s'. hw_get_random_bytes 0x1000 4 (started s1_script) = Inr (TEE_SUCCESS, s')
     \<and> fifo_pos s' = 4 \<and> dev_in s' = [] \<and> rng s' = 0x2000000
     \<and> delivered 0x1000 4 s' = [0xEF, 0xBE, 0xAD, 0xDE]
     \<and> new_trace (started s1_script) s' =
         [Rd 0x2000014 0, Wr 0x2000018 0x220005, Wr 0x2000024 0, Wr 0x2000020 0xffffff,
          Wr 0x2000014 0x400, Rd 0x2000010 1, Rd 0x2000000 0xDEADBEEF, Rd 0x2000004 0,
          Rd 0x2000008 0, Rd 0x200000C 0, Wr 0x2000010 1]"
  by (simp add: run_simps started_eq s1_script_def store_val_def delivered_def new_trace_def
      upt_rec [of _ "numeral _"])

lemma s2_first_run:
  "\<exists>s'. hw_get_random_bytes 0x1000 10 (started s2_script) = Inr (TEE_SUCCESS, s')
     \<and> fifo_pos s' = 10 \<and> rng s' = 0x2000000
     \<and> dev_in s' = [0x400, 1, 0x13121110, 0x17161514, 0x1B1A1918, 0x1F1E1D1C]
     \<and> delivered 0x1000 10 s' = [0, 1, 2, 3, 4, 5, 6, 7, 8, 9]"
  by (simp add: run_simps started_eq s2_script_def store_val_def delivered_def
      upt_rec [of _ "numeral _"])

subsection \<open>Cursor, frame and result\<close>

lemma write_bytes_outside:
  assumes "a \<notin> (\<lambda>i. buf + of_nat i) ` {..<length bs}"
  shows "write_bytes m buf 0 bs a = m a"
proof (rule write_bytes_frame)
  show "\<forall>i<length bs. a \<noteq> buf + of_nat (0 + i)"
    using assms by auto
qed

lemma beyond_len_outside:
  fixes len i :: "64 word"
  assumes "len \<le> i"
  shows "buf + i \<notin> (\<lambda>j. buf + of_nat j) ` {..<unat len}"
proof
  assume "buf + i \<in> (\<lambda>j. buf + of_nat j) ` {..<unat len}"
  then obtain j where j: "j < unat len" and e: "buf + i = buf + of_nat j"
    by auto
  from e have "i = of_nat j" by simp
  moreover from j have "j < 2 ^ 64"
    using unat_len_bound [of len] by simp
  ultimately have "unat i = j"
    by (simp add: unat_of_nat)
  with j assms show False
    by (simp add: word_le_nat_alt)
qed

text \<open>
  C9: for every call of \<open>hw_get_random_bytes\<close> that returns, the cursor afterwards is
  the cursor before plus the requested length, modulo 16, whatever the number of refills.
\<close>

theorem cursor_advances_by_len:
  assumes "hw_get_random_bytes buf len s = Inr (r, s')" and "fifo_pos s < 16"
  shows "fifo_pos s' = (fifo_pos s + unat len) mod 16"
  using assms by (rule hw_get_spec(2))

theorem cursor_advances_by_len_witness:
  "\<exists>s'. hw_get_random_bytes 0x1000 10 (started s2_script) = Inr (TEE_SUCCESS, s')
     \<and> fifo_pos s' = 10"
proof -
  from s2_first_run obtain s' where
    r: "hw_get_random_bytes 0x1000 10 (started s2_script) = Inr (TEE_SUCCESS, s')"
    by blast
  have "fifo_pos (started s2_script) < 16"
    by (simp add: started_eq)
  from cursor_advances_by_len [OF r this] have "fifo_pos s' = 10"
    by (simp add: started_eq)
  with r show ?thesis by blast
qed

text \<open>
  C10: a call of \<open>hw_get_random_bytes\<close> that returns changes the caller's memory only at
  the addresses \<open>buf + i\<close> with \<open>i < len\<close>: every other address, and in particular
  \<open>buf + i\<close> for every index \<open>i \<ge> len\<close>, holds what it held before, and the device
  base \<open>rng\<close> is unchanged.
\<close>

theorem fetch_writes_only_destination:
  assumes "hw_get_random_bytes buf len s = Inr (r, s')"
  shows "(\<forall>a. a \<notin> (\<lambda>i. buf + of_nat i) ` {..<unat len} \<longrightarrow> ram s' a = ram s a)
       \<and> (\<forall>i. len \<le> i \<longrightarrow> ram s' (buf + i) = ram s (buf + i))
       \<and> rng s' = rng s"
proof -
  from hw_get_frame(1) [OF assms] obtain bs where
    l: "length bs = unat len" and m: "ram s' = write_bytes (ram s) buf 0 bs"
    by blast
  have out: "ram s' a = ram s a" if "a \<notin> (\<lambda>i. buf + of_nat i) ` {..<unat len}" for a
    unfolding m using that by (intro write_bytes_outside) (simp add: l)
  have "ram s' (buf + i) = ram s (buf + i)" if "len \<le> i" for i
    by (rule out) (rule beyond_len_outside [OF that])
  with out hw_get_frame(2) [OF assms] show ?thesis
    by blast
qed

theorem fetch_writes_only_destination_witness:
  "\<exists>s'. hw_get_random_bytes 0x1000 4 (started s1_script) = Inr (TEE_SUCCESS, s')
     \<and> ram s' 0x1004 = ram (started s1_script) 0x1004
     \<and> ram s' 0xFFF = ram (started s1_script) 0xFFF
     \<and> rng s' = rng (started s1_script)"
proof -
  from s1_run obtain s' where
    r: "hw_get_random_bytes 0x1000 4 (started s1_script) = Inr (TEE_SUCCESS, s')"
    by blast
  have a: "(4 :: 64 word) \<le> 4"
    by simp
  have b: "(0xFFF :: 64 word) \<notin> (\<lambda>i. 0x1000 + of_nat i) ` {..<unat (4 :: 64 word)}"
  proof
    assume "(0xFFF :: 64 word) \<in> (\<lambda>i. 0x1000 + of_nat i) ` {..<unat (4 :: 64 word)}"
    then obtain i where "i < 4" "(0xFFF :: 64 word) = 0x1000 + of_nat i"
      by auto
    then have "i \<in> {0, 1, 2, 3}" by auto
    with \<open>(0xFFF :: 64 word) = 0x1000 + of_nat i\<close> show False
      by auto
  qed
  from fetch_writes_only_destination [OF r] a b
  have "ram s' (0x1000 + 4) = ram (started s1_script) (0x1000 + 4)"
    "ram s' 0xFFF = ram (started s1_script) 0xFFF" "rng s' = rng (started s1_script)"
    by blast+
  with r show ?thesis by simp
qed

text \<open>
  C8: a fetch of length 0 returns \<open>TEE_SUCCESS\<close> and leaves the whole state as it was (no
  device access, FIFO and cursor untouched); every fetch that returns returns
  \<open>TEE_SUCCESS\<close>; and a fetch does return when the device answers each block read it
  needs promptly.
\<close>

theorem fetch_returns_success:
  "hw_get_random_bytes buf 0 s = Inr (TEE_SUCCESS, s)
   \<and> (hw_get_random_bytes buf len s = Inr (r, s') \<longrightarrow> r = TEE_SUCCESS)
   \<and> (fifo_pos s < 16 \<longrightarrow>
        ready_script ((fifo_pos s + unat len + 15) div 16 - (fifo_pos s + 15) div 16) (dev_in s) \<longrightarrow>
        (\<exists>s''. hw_get_random_bytes buf len s = Inr (TEE_SUCCESS, s'')))"
proof (intro conjI impI)
  show "hw_get_random_bytes buf 0 s = Inr (TEE_SUCCESS, s)"
    by (simp add: hw_get_random_bytes_def fetch_loop_trivial)
next
  assume "hw_get_random_bytes buf len s = Inr (r, s')"
  then show "r = TEE_SUCCESS"
    by (simp add: hw_get_Inr)
next
  assume "fifo_pos s < 16"
    and "ready_script ((fifo_pos s + unat len + 15) div 16 - (fifo_pos s + 15) div 16) (dev_in s)"
  then show "\<exists>s''. hw_get_random_bytes buf len s = Inr (TEE_SUCCESS, s'')"
    by (rule hw_get_returns)
qed

theorem fetch_returns_success_witness:
  "hw_get_random_bytes 0x1000 0 (started s1_script) = Inr (TEE_SUCCESS, started s1_script)
   \<and> fifo_pos (started s1_script) < 16
   \<and> ready_script 1 (dev_in (started s1_script))
   \<and> (\<exists>s'. hw_get_random_bytes 0x1000 4 (started s1_script) = Inr (TEE_SUCCESS, s'))"
proof -
  have a: "fifo_pos (started s1_script) < 16"
    by (simp add: started_eq)
  have b: "ready_script 1 (dev_in (started s1_script))"
    by (simp add: started_eq s1_script_def regmap)
  then have b': "ready_script ((fifo_pos (started s1_script) + unat (4 :: 64 word) + 15) div 16
      - (fifo_pos (started s1_script) + 15) div 16) (dev_in (started s1_script))"
    by (simp add: started_eq)
  from s1_run obtain s1 where
    r: "hw_get_random_bytes 0x1000 4 (started s1_script) = Inr (TEE_SUCCESS, s1)"
    by blast
  from fetch_returns_success [of "0x1000" "started s1_script" 4 TEE_SUCCESS s1] a b b' r
  show ?thesis
    by blast
qed

text \<open>
  C6: the cursor \<open>fifo_pos\<close> is below 16 in the boot state, \<open>eip76d_rng_init\<close> does not
  touch it, and every call of \<open>hw_get_random_bytes\<close> that returns, whatever the length,
  leaves it below 16 if it was; from such a state the model never indexes \<open>fifo.byte\<close>
  out of range. The iteration that consumes byte 15 sets the cursor to 0.
\<close>

theorem cursor_in_range:
  "fifo_pos (boot_state m ins) < 16
   \<and> fifo_pos (snd (eip76d_rng_init va s)) = fifo_pos s
   \<and> (fifo_pos s < 16 \<longrightarrow> hw_get_random_bytes buf len s = Inr (r, s') \<longrightarrow> fifo_pos s' < 16)
   \<and> (fifo_pos s < 16 \<longrightarrow> hw_get_random_bytes buf len s \<noteq> Inl OutOfBounds)
   \<and> (fifo_pos s = 15 \<longrightarrow>
        fetch_byte buf pos s =
          Inr (s\<lparr>ram := (ram s)(buf + of_nat pos := fifo s 15), fifo_pos := 0\<rparr>))"
proof (intro conjI impI)
  show "fifo_pos (boot_state m ins) < 16"
    by (simp add: boot_state_def)
  show "fifo_pos (snd (eip76d_rng_init va s)) = fifo_pos s"
    by (simp add: init_eq)
next
  assume "fifo_pos s < 16" and "hw_get_random_bytes buf len s = Inr (r, s')"
  from hw_get_spec(2) [OF this(2,1)] show "fifo_pos s' < 16"
    by simp
next
  assume "fifo_pos s < 16"
  then show "hw_get_random_bytes buf len s \<noteq> Inl OutOfBounds"
    by (rule hw_get_not_oob)
next
  assume "fifo_pos s = 15"
  then show "fetch_byte buf pos s =
      Inr (s\<lparr>ram := (ram s)(buf + of_nat pos := fifo s 15), fifo_pos := 0\<rparr>)"
    by (simp add: fetch_byte_plain)
qed

theorem cursor_in_range_witness:
  "fifo_pos (started s2_script) < 16
   \<and> (\<exists>s'. hw_get_random_bytes 0x1000 10 (started s2_script) = Inr (TEE_SUCCESS, s')
         \<and> fifo_pos s' < 16)
   \<and> hw_get_random_bytes 0x1000 10 (started s2_script) \<noteq> Inl OutOfBounds
   \<and> fifo_pos cursor15 = 15
   \<and> (\<exists>s'. fetch_byte 0x1000 0 cursor15 = Inr s' \<and> fifo_pos s' = 0)"
proof -
  have a: "fifo_pos (started s2_script) < 16"
    by (simp add: started_eq)
  have c: "fifo_pos cursor15 = 15"
    by (simp add: cursor15_def)
  from s2_first_run obtain s1 where
    r: "hw_get_random_bytes 0x1000 10 (started s2_script) = Inr (TEE_SUCCESS, s1)"
    by blast
  from cursor_in_range [of zero_ram "[]" 0 "started s2_script" "0x1000" 10 TEE_SUCCESS s1 0] a r
  have "fifo_pos s1 < 16" "hw_get_random_bytes 0x1000 10 (started s2_script) \<noteq> Inl OutOfBounds"
    by blast+
  moreover from cursor_in_range [of zero_ram "[]" 0 cursor15 "0x1000" 0 TEE_SUCCESS cursor15 0] c
  have "fetch_byte 0x1000 0 cursor15 =
      Inr (cursor15\<lparr>ram := (ram cursor15)(0x1000 + of_nat 0 := fifo cursor15 15), fifo_pos := 0\<rparr>)"
    by blast
  ultimately show ?thesis
    using a c r by auto
qed

subsection \<open>FIFO conservation\<close>

lemma new_trace_trans:
  assumes "io_trace s' = io_trace s @ new_trace s s'" "io_trace s'' = io_trace s' @ new_trace s' s''"
  shows "new_trace s s'' = new_trace s s' @ new_trace s' s''"
proof -
  have "io_trace s'' = io_trace s @ (new_trace s s' @ new_trace s' s'')"
    by (subst assms(2), subst assms(1)) simp
  then show ?thesis
    by (rule new_trace_append)
qed

text \<open>
  C1, as stated, fails: a fetch of 10 bytes that starts at cursor 10 takes bytes 10..15
  from the FIFO, refills once and takes 4 more bytes: one block read, where
  \<open>ceil((10 + 10) / 16)\<close> is 2.
\<close>

theorem block_read_count_counterexample:
  "hw_get_random_bytes 0x1000 10 (started s2_script) = Inr (TEE_SUCCESS, s2_mid)
   \<and> fifo_pos s2_mid = 10
   \<and> hw_get_random_bytes 0x2000 10 s2_mid = Inr (TEE_SUCCESS, s2_end)
   \<and> block_reads (rng s2_mid) (new_trace s2_mid s2_end) = 1
   \<and> block_reads (rng s2_mid) (new_trace s2_mid s2_end) \<noteq> (fifo_pos s2_mid + 10 + 15) div 16"
proof -
  from s2_first_run obtain m where
    m: "hw_get_random_bytes 0x1000 10 (started s2_script) = Inr (TEE_SUCCESS, m)"
    and c: "fifo_pos m = 10"
    and d: "dev_in m = [0x400, 1, 0x13121110, 0x17161514, 0x1B1A1918, 0x1F1E1D1C]"
    by blast
  have mid: "s2_mid = m"
    by (simp add: s2_mid_def m)
  have lt: "fifo_pos m < 16"
    by (simp add: c)
  have "ready_script ((fifo_pos m + unat (10 :: 64 word) + 15) div 16 - (fifo_pos m + 15) div 16)
      (dev_in m)"
    by (simp add: c d regmap)
  from hw_get_returns [OF lt this] obtain e where
    e: "hw_get_random_bytes 0x2000 10 m = Inr (TEE_SUCCESS, e)"
    by blast
  have fin: "s2_end = e"
    by (simp add: s2_end_def mid e)
  from hw_get_spec(3) [OF e lt] have "block_reads (rng m) (new_trace m e) = 1"
    by (simp add: c)
  then show ?thesis
    by (simp add: mid fin m e c)
qed

text \<open>
  C1, amended: a call of \<open>hw_get_random_bytes\<close> for \<open>n\<close> bytes (any \<open>n\<close>, so also
  \<open>n \<le> 16\<close>) that starts at cursor \<open>c\<close> and returns performs exactly
  \<open>ceil((c + n) / 16) - ceil(c / 16)\<close> block reads, which is \<open>ceil((c + n) / 16)\<close> when
  \<open>c = 0\<close>. No byte is handed out twice: the bytes delivered, followed by the bytes left
  pending in the FIFO, are the bytes that were pending before followed by the bytes of the
  blocks read during the call, in order; and the same holds across two calls in sequence.
\<close>

theorem fifo_conservation:
  assumes "hw_get_random_bytes buf len s = Inr (r, s')" and "fifo_pos s < 16"
  shows "block_reads (rng s) (new_trace s s') =
           (fifo_pos s + unat len + 15) div 16 - (fifo_pos s + 15) div 16
       \<and> (fifo_pos s = 0 \<longrightarrow> block_reads (rng s) (new_trace s s') = (unat len + 15) div 16)
       \<and> delivered buf (unat len) s' @ pending s' =
           pending s @ entropy (rng s) (new_trace s s')
       \<and> (\<forall>buf2 len2 r2 s''. hw_get_random_bytes buf2 len2 s' = Inr (r2, s'') \<longrightarrow>
            delivered buf (unat len) s' @ delivered buf2 (unat len2) s'' @ pending s'' =
              pending s @ entropy (rng s) (new_trace s s''))"
proof -
  note a = hw_get_spec [OF assms]
  have lt: "fifo_pos s' < 16"
    by (simp add: a(2))
  have b: "rng s' = rng s"
    by (rule hw_get_frame(2) [OF assms(1)])
  have two: "delivered buf (unat len) s' @ delivered buf2 (unat len2) s'' @ pending s'' =
              pending s @ entropy (rng s) (new_trace s s'')"
    if "hw_get_random_bytes buf2 len2 s' = Inr (r2, s'')" for buf2 len2 r2 s''
  proof -
    note c = hw_get_spec [OF that lt]
    have "new_trace s s'' = new_trace s s' @ new_trace s' s''"
      by (rule new_trace_trans [OF a(1) c(1)])
    then have "pending s @ entropy (rng s) (new_trace s s'') =
        (pending s @ entropy (rng s) (new_trace s s')) @ entropy (rng s) (new_trace s' s'')"
      by simp
    also have "\<dots> = delivered buf (unat len) s' @ (pending s' @ entropy (rng s') (new_trace s' s''))"
      by (simp only: a(4) [symmetric] b append_assoc)
    also have "\<dots> = delivered buf (unat len) s' @ delivered buf2 (unat len2) s'' @ pending s''"
      by (simp only: c(4) [symmetric])
    finally show ?thesis by (rule sym)
  qed
  have zero: "block_reads (rng s) (new_trace s s') = (unat len + 15) div 16" if "fifo_pos s = 0"
    using a(3) that by simp
  from a(3) zero a(4) two show ?thesis
    by blast
qed

theorem fifo_conservation_witness:
  "\<exists>s' s''. hw_get_random_bytes 0x1000 16 (started s2_script) = Inr (TEE_SUCCESS, s')
     \<and> hw_get_random_bytes 0x2000 16 s' = Inr (TEE_SUCCESS, s'')
     \<and> fifo_pos (started s2_script) = 0
     \<and> block_reads 0x2000000 (new_trace (started s2_script) s') = 1
     \<and> delivered 0x1000 16 s' @ delivered 0x2000 16 s'' @ pending s'' =
         entropy 0x2000000 (new_trace (started s2_script) s'')"
proof -
  let ?s = "started s2_script"
  have z: "fifo_pos ?s = 0" and lt: "fifo_pos ?s < 16" and b: "rng ?s = 0x2000000"
    and p: "pending ?s = []"
    by (simp_all add: started_eq pending_def)
  have "\<exists>s'. hw_get_random_bytes 0x1000 16 ?s = Inr (TEE_SUCCESS, s')
      \<and> fifo_pos s' = 0 \<and> dev_in s' = [0x400, 1, 0x13121110, 0x17161514, 0x1B1A1918, 0x1F1E1D1C]"
    by (simp add: run_simps started_eq s2_script_def)
  then obtain s' where r1: "hw_get_random_bytes 0x1000 16 ?s = Inr (TEE_SUCCESS, s')"
    and c: "fifo_pos s' = 0"
    and d: "dev_in s' = [0x400, 1, 0x13121110, 0x17161514, 0x1B1A1918, 0x1F1E1D1C]"
    by blast
  have "ready_script ((fifo_pos s' + unat (16 :: 64 word) + 15) div 16 - (fifo_pos s' + 15) div 16)
      (dev_in s')"
    by (simp add: c d regmap)
  from hw_get_returns [of s', OF _ this] c obtain s'' where
    r2: "hw_get_random_bytes 0x2000 16 s' = Inr (TEE_SUCCESS, s'')"
    by auto
  from fifo_conservation [OF r1 lt] z r2
  have "block_reads (rng ?s) (new_trace ?s s') = (unat (16 :: 64 word) + 15) div 16"
    and "delivered 0x1000 (unat (16 :: 64 word)) s' @ delivered 0x2000 (unat (16 :: 64 word)) s''
           @ pending s'' = pending ?s @ entropy (rng ?s) (new_trace ?s s'')"
    by blast+
  then have "block_reads 0x2000000 (new_trace ?s s') = 1"
    and "delivered 0x1000 16 s' @ delivered 0x2000 16 s'' @ pending s'' =
         entropy 0x2000000 (new_trace ?s s'')"
    by (simp_all add: b p)
  with r1 r2 z show ?thesis
    by blast
qed

subsection \<open>Byte order\<close>

lemma store_val_nth:
  assumes "k < 4" "j < 4"
  shows "store_val 3 w3 (store_val 2 w2 (store_val 1 w1 (store_val 0 w0 f))) (4 * k + j) =
           ucast (drop_bit (8 * j) ([w0, w1, w2, w3] ! k))"
proof -
  from assms have "k \<in> {0, 1, 2, 3}" "j \<in> {0, 1, 2, 3}"
    by auto
  then show ?thesis
    by (elim insertE emptyE) (simp_all add: store_val_def)
qed

lemma fetch_loop_plain:
  assumes "0 < fifo_pos s" and "fifo_pos s + (len - pos) \<le> 16"
  shows "\<exists>s'. fetch_loop buf len pos s = Inr s' \<and> io_trace s' = io_trace s"
  using assms
proof (induction buf len pos s rule: fetch_loop.induct)
  case (1 buffer len buffer_pos s)
  show ?case
  proof (cases "buffer_pos < len")
    case False
    then show ?thesis
      by (simp add: fetch_loop_trivial)
  next
    case True
    with "1.prems" have lt: "fifo_pos s < 16"
      by simp
    let ?s1 = "s\<lparr>ram := (ram s)(buffer + of_nat buffer_pos := fifo s (fifo_pos s)),
            fifo_pos := (fifo_pos s + 1) mod 16\<rparr>"
    have fb: "fetch_byte buffer buffer_pos s = Inr ?s1"
      by (rule fetch_byte_plain [OF "1.prems"(1) lt])
    have "\<exists>s'. fetch_loop buffer len (buffer_pos + 1) ?s1 = Inr s' \<and> io_trace s' = io_trace ?s1"
    proof (cases "buffer_pos + 1 < len")
      case False
      then show ?thesis
        by (simp add: fetch_loop_trivial)
    next
      case T2: True
      with "1.prems" have "fifo_pos s + 1 < 16"
        by simp
      then have "0 < fifo_pos ?s1" "fifo_pos ?s1 + (len - (buffer_pos + 1)) \<le> 16"
        using "1.prems"(2) T2 by simp_all
      from "1.IH" [OF True fb this] show ?thesis .
    qed
    then obtain s' where "fetch_loop buffer len (buffer_pos + 1) ?s1 = Inr s'"
      "io_trace s' = io_trace s"
      by auto
    with True fb show ?thesis
      by (subst fetch_loop.simps) simp
  qed
qed

lemma le_bytes_example:
  "le_bytes 0x03020100 @ le_bytes 0x07060504 @ le_bytes 0x0B0A0908 @ le_bytes 0x0F0E0D0C =
     [0x00, 0x01, 0x02, 0x03, 0x04, 0x05, 0x06, 0x07, 0x08, 0x09, 0x0A, 0x0B, 0x0C, 0x0D, 0x0E, 0x0F]"
  by (simp add: le_bytes_def)

lemma fetch16_from_zero:
  assumes "hw_get_random_bytes buf 16 s = Inr (r, s')" and "fifo_pos s = 0"
  shows "\<exists>pre st w0 w1 w2 w3.
           new_trace s s' = pre @ [Rd (rng s + RNG_STATUS) st,
                  Rd (rng s + RNG_OUTPUT_0) w0, Rd (rng s + RNG_OUTPUT_1) w1,
                  Rd (rng s + RNG_OUTPUT_2) w2, Rd (rng s + RNG_OUTPUT_3) w3,
                  Wr (rng s + RNG_INTACK) RNG_READY]
         \<and> list_all (quiet (rng s)) pre
         \<and> delivered buf 16 s' = le_bytes w0 @ le_bytes w1 @ le_bytes w2 @ le_bytes w3"
proof -
  have lt: "fifo_pos s < 16"
    by (simp add: assms(2))
  note sp = hw_get_spec [OF assms(1) lt]
  from assms(1) have fl: "fetch_loop buf 16 0 s = Inr s'"
    by (simp add: hw_get_Inr)
  then obtain s1 where fb: "fetch_byte buf 0 s = Inr s1"
    and fl1: "fetch_loop buf 16 (0 + 1) s1 = Inr s'"
    by (subst (asm) fetch_loop.simps) (auto split: sum.splits)
  from fb assms(2) obtain s0 where rf: "refill s = Inr s0"
    and s1: "s1 = s0\<lparr>ram := (ram s0)(buf + of_nat 0 := fifo s0 (fifo_pos s0)),
                    fifo_pos := (fifo_pos s0 + 1) mod 16\<rparr>"
    by (auto simp: fetch_byte_def split: sum.splits if_splits)
  from rf obtain w0 w1 w2 w3 sr where
    r: "eip76d_rng_read128 s = Inr ((w0, w1, w2, w3), sr)"
    and s0: "s0 = sr\<lparr>fifo := store_val 3 w3 (store_val 2 w2
                 (store_val 1 w1 (store_val 0 w0 (fifo sr))))\<rparr>"
    by (rule refill_stages)
  from read128_trace [OF r] obtain pre st where
    t: "new_trace s sr = pre @ [Rd (rng s + RNG_STATUS) st,
                  Rd (rng s + RNG_OUTPUT_0) w0, Rd (rng s + RNG_OUTPUT_1) w1,
                  Rd (rng s + RNG_OUTPUT_2) w2, Rd (rng s + RNG_OUTPUT_3) w3,
                  Wr (rng s + RNG_INTACK) RNG_READY]"
    and a: "io_trace sr = io_trace s @ new_trace s sr"
    and q: "list_all (quiet (rng s)) pre"
    by blast
  from read128_frame [OF r] assms(2) have p0: "fifo_pos s0 = 0"
    by (simp add: s0)
  then have p1: "fifo_pos s1 = 1" and t1: "io_trace s1 = io_trace sr"
    by (simp_all add: s1 s0)
  from fetch_loop_plain [of s1 16 "0 + 1" buf] p1 fl1 have "io_trace s' = io_trace s1"
    by auto
  with t1 a have "io_trace s' = io_trace s @ new_trace s sr"
    by (simp only:)
  then have nt: "new_trace s s' = new_trace s sr"
    by (rule new_trace_append)
  from sp(2) assms(2) have "fifo_pos s' = 0"
    by simp
  with sp(4) assms(2) have "delivered buf 16 s' = entropy (rng s) (new_trace s s')"
    by (simp add: pending_def)
  also have "\<dots> = le_bytes w0 @ le_bytes w1 @ le_bytes w2 @ le_bytes w3"
    unfolding nt t by (rule block_tail_counts(2) [OF q])
  finally have d: "delivered buf 16 s' = le_bytes w0 @ le_bytes w1 @ le_bytes w2 @ le_bytes w3" .
  have nt': "new_trace s s' = pre @ [Rd (rng s + RNG_STATUS) st,
                  Rd (rng s + RNG_OUTPUT_0) w0, Rd (rng s + RNG_OUTPUT_1) w1,
                  Rd (rng s + RNG_OUTPUT_2) w2, Rd (rng s + RNG_OUTPUT_3) w3,
                  Wr (rng s + RNG_INTACK) RNG_READY]"
    by (simp only: nt t)
  show ?thesis
    by (intro exI conjI) (rule nt', rule q, rule d)
qed

text \<open>
  C7: after a refill, byte \<open>4k + j\<close> of the FIFO is bits \<open>8j + 7 .. 8j\<close> of the word read
  from OUTPUT_k (on the little-endian target the union lays \<open>val[k]\<close> over
  \<open>byte[4k .. 4k + 3]\<close>); a 16-byte fetch that starts at cursor 0 performs one block read
  and delivers the bytes of OUTPUT_0, OUTPUT_1, OUTPUT_2, OUTPUT_3, each least significant
  byte first; with the outputs 0x03020100, 0x07060504, 0x0B0A0908, 0x0F0E0D0C these are
  the bytes 0x00, 0x01, ..., 0x0F in order.
\<close>

theorem fifo_little_endian:
  "(refill s = Inr s1 \<longrightarrow>
      (\<exists>pre st w0 w1 w2 w3.
          new_trace s s1 = pre @ [Rd (rng s + RNG_STATUS) st,
                  Rd (rng s + RNG_OUTPUT_0) w0, Rd (rng s + RNG_OUTPUT_1) w1,
                  Rd (rng s + RNG_OUTPUT_2) w2, Rd (rng s + RNG_OUTPUT_3) w3,
                  Wr (rng s + RNG_INTACK) RNG_READY]
        \<and> (\<forall>k<4. \<forall>j<4. fifo s1 (4 * k + j) = ucast (drop_bit (8 * j) ([w0, w1, w2, w3] ! k)))))
   \<and> (fifo_pos s = 0 \<longrightarrow> hw_get_random_bytes buf 16 s = Inr (r, s') \<longrightarrow>
      (\<exists>pre st w0 w1 w2 w3.
          new_trace s s' = pre @ [Rd (rng s + RNG_STATUS) st,
                  Rd (rng s + RNG_OUTPUT_0) w0, Rd (rng s + RNG_OUTPUT_1) w1,
                  Rd (rng s + RNG_OUTPUT_2) w2, Rd (rng s + RNG_OUTPUT_3) w3,
                  Wr (rng s + RNG_INTACK) RNG_READY]
        \<and> list_all (quiet (rng s)) pre
        \<and> delivered buf 16 s' = le_bytes w0 @ le_bytes w1 @ le_bytes w2 @ le_bytes w3
        \<and> (w0 = 0x03020100 \<and> w1 = 0x07060504 \<and> w2 = 0x0B0A0908 \<and> w3 = 0x0F0E0D0C \<longrightarrow>
             delivered buf 16 s' =
               [0x00, 0x01, 0x02, 0x03, 0x04, 0x05, 0x06, 0x07,
                0x08, 0x09, 0x0A, 0x0B, 0x0C, 0x0D, 0x0E, 0x0F])))"
proof (intro conjI impI)
  assume rf: "refill s = Inr s1"
  then obtain w0 w1 w2 w3 sr where
    r: "eip76d_rng_read128 s = Inr ((w0, w1, w2, w3), sr)"
    and s1: "s1 = sr\<lparr>fifo := store_val 3 w3 (store_val 2 w2
                 (store_val 1 w1 (store_val 0 w0 (fifo sr))))\<rparr>"
    by (rule refill_stages)
  from read128_trace [OF r] obtain pre st where
    t: "new_trace s sr = pre @ [Rd (rng s + RNG_STATUS) st,
                  Rd (rng s + RNG_OUTPUT_0) w0, Rd (rng s + RNG_OUTPUT_1) w1,
                  Rd (rng s + RNG_OUTPUT_2) w2, Rd (rng s + RNG_OUTPUT_3) w3,
                  Wr (rng s + RNG_INTACK) RNG_READY]"
    by blast
  have "new_trace s s1 = new_trace s sr"
    by (simp add: s1 new_trace_def)
  then have nt: "new_trace s s1 = pre @ [Rd (rng s + RNG_STATUS) st,
                  Rd (rng s + RNG_OUTPUT_0) w0, Rd (rng s + RNG_OUTPUT_1) w1,
                  Rd (rng s + RNG_OUTPUT_2) w2, Rd (rng s + RNG_OUTPUT_3) w3,
                  Wr (rng s + RNG_INTACK) RNG_READY]"
    by (simp only: t)
  have f: "fifo s1 = store_val 3 w3 (store_val 2 w2 (store_val 1 w1 (store_val 0 w0 (fifo sr))))"
    unfolding s1 by simp
  have le: "\<forall>k<4. \<forall>j<4. fifo s1 (4 * k + j) = ucast (drop_bit (8 * j) ([w0, w1, w2, w3] ! k))"
    unfolding f by (intro allI impI) (rule store_val_nth)
  show "\<exists>pre st w0 w1 w2 w3.
          new_trace s s1 = pre @ [Rd (rng s + RNG_STATUS) st,
                  Rd (rng s + RNG_OUTPUT_0) w0, Rd (rng s + RNG_OUTPUT_1) w1,
                  Rd (rng s + RNG_OUTPUT_2) w2, Rd (rng s + RNG_OUTPUT_3) w3,
                  Wr (rng s + RNG_INTACK) RNG_READY]
        \<and> (\<forall>k<4. \<forall>j<4. fifo s1 (4 * k + j) = ucast (drop_bit (8 * j) ([w0, w1, w2, w3] ! k)))"
    by (intro exI conjI) (rule nt, rule le)
next
  assume z: "fifo_pos s = 0" and h: "hw_get_random_bytes buf 16 s = Inr (r, s')"
  from fetch16_from_zero [OF h z] obtain pre st w0 w1 w2 w3 where
    a: "new_trace s s' = pre @ [Rd (rng s + RNG_STATUS) st,
                  Rd (rng s + RNG_OUTPUT_0) w0, Rd (rng s + RNG_OUTPUT_1) w1,
                  Rd (rng s + RNG_OUTPUT_2) w2, Rd (rng s + RNG_OUTPUT_3) w3,
                  Wr (rng s + RNG_INTACK) RNG_READY]"
    and b: "list_all (quiet (rng s)) pre"
    and c: "delivered buf 16 s' = le_bytes w0 @ le_bytes w1 @ le_bytes w2 @ le_bytes w3"
    by blast
  have "delivered buf 16 s' =
               [0x00, 0x01, 0x02, 0x03, 0x04, 0x05, 0x06, 0x07,
                0x08, 0x09, 0x0A, 0x0B, 0x0C, 0x0D, 0x0E, 0x0F]"
    if "w0 = 0x03020100 \<and> w1 = 0x07060504 \<and> w2 = 0x0B0A0908 \<and> w3 = 0x0F0E0D0C"
    using c that by (simp only: le_bytes_example)
  then have e: "w0 = 0x03020100 \<and> w1 = 0x07060504 \<and> w2 = 0x0B0A0908 \<and> w3 = 0x0F0E0D0C \<longrightarrow>
             delivered buf 16 s' =
               [0x00, 0x01, 0x02, 0x03, 0x04, 0x05, 0x06, 0x07,
                0x08, 0x09, 0x0A, 0x0B, 0x0C, 0x0D, 0x0E, 0x0F]"
    by (rule impI)
  show "\<exists>pre st w0 w1 w2 w3.
          new_trace s s' = pre @ [Rd (rng s + RNG_STATUS) st,
                  Rd (rng s + RNG_OUTPUT_0) w0, Rd (rng s + RNG_OUTPUT_1) w1,
                  Rd (rng s + RNG_OUTPUT_2) w2, Rd (rng s + RNG_OUTPUT_3) w3,
                  Wr (rng s + RNG_INTACK) RNG_READY]
        \<and> list_all (quiet (rng s)) pre
        \<and> delivered buf 16 s' = le_bytes w0 @ le_bytes w1 @ le_bytes w2 @ le_bytes w3
        \<and> (w0 = 0x03020100 \<and> w1 = 0x07060504 \<and> w2 = 0x0B0A0908 \<and> w3 = 0x0F0E0D0C \<longrightarrow>
             delivered buf 16 s' =
               [0x00, 0x01, 0x02, 0x03, 0x04, 0x05, 0x06, 0x07,
                0x08, 0x09, 0x0A, 0x0B, 0x0C, 0x0D, 0x0E, 0x0F])"
    by (intro exI conjI) (rule a, rule b, rule c, rule e)
qed

lemma refill_ready:
  assumes "dev_in s = ctrl # st # w0 # w1 # w2 # w3 # rest" "st AND RNG_READY \<noteq> 0"
  shows "refill s =
     Inr (s\<lparr>dev_in := rest,
            io_trace := io_trace s @ block_trace (rng s) ctrl st w0 w1 w2 w3,
            fifo := store_val 3 w3 (store_val 2 w2 (store_val 1 w1 (store_val 0 w0 (fifo s))))\<rparr>)"
  by (simp add: refill_def read128_ready [OF assms] block_trace_def)

lemma block_tail_unique:
  assumes "pre @ [Rd a0 st, Rd a1 w0, Rd a2 w1, Rd a3 w2, Rd a4 w3, e] =
           c # [Rd b0 st', Rd b1 v0, Rd b2 v1, Rd b3 v2, Rd b4 v3, e']"
  shows "w0 = v0 \<and> w1 = v1 \<and> w2 = v2 \<and> w3 = v3"
proof -
  from assms have "length (pre @ [Rd a0 st, Rd a1 w0, Rd a2 w1, Rd a3 w2, Rd a4 w3, e]) = 7"
    by simp
  then have "length pre = 1"
    by simp
  then obtain x where "pre = [x]"
    by (cases pre) auto
  with assms show ?thesis
    by simp
qed

theorem fifo_little_endian_witness:
  "(\<exists>s1. refill (started s2_script) = Inr s1 \<and> fifo s1 (4 * 2 + 1) = 0x09)
   \<and> fifo_pos (started s2_script) = 0
   \<and> (\<exists>s'. hw_get_random_bytes 0x1000 16 (started s2_script) = Inr (TEE_SUCCESS, s')
         \<and> delivered 0x1000 16 s' =
              [0x00, 0x01, 0x02, 0x03, 0x04, 0x05, 0x06, 0x07,
               0x08, 0x09, 0x0A, 0x0B, 0x0C, 0x0D, 0x0E, 0x0F])"
proof -
  let ?s = "started s2_script"
  let ?blk = "Rd 0x2000014 0x400 #
      [Rd 0x2000010 1, Rd 0x2000000 0x03020100, Rd 0x2000004 0x07060504,
       Rd 0x2000008 0x0B0A0908, Rd 0x200000C 0x0F0E0D0C, Wr 0x2000010 1]"
  have z: "fifo_pos ?s = 0" and b: "rng ?s = 0x2000000"
    by (simp_all add: started_eq)
  have "\<exists>s1. refill ?s = Inr s1 \<and> new_trace ?s s1 = ?blk"
    by (subst refill_ready [where ctrl = "0x400" and st = 1 and ?w0.0 = "0x03020100"
          and ?w1.0 = "0x07060504" and ?w2.0 = "0x0B0A0908" and ?w3.0 = "0x0F0E0D0C"
          and rest = "[0x400, 1, 0x13121110, 0x17161514, 0x1B1A1918, 0x1F1E1D1C]"])
      (simp_all add: started_eq s2_script_def block_trace_def new_trace_def regmap)
  then obtain s1 where r1: "refill ?s = Inr s1" and n1: "new_trace ?s s1 = ?blk"
    by blast
  have "\<exists>s'. hw_get_random_bytes 0x1000 16 ?s = Inr (TEE_SUCCESS, s') \<and> new_trace ?s s' = ?blk"
    by (simp add: run_simps started_eq s2_script_def new_trace_def)
  then obtain s' where r2: "hw_get_random_bytes 0x1000 16 ?s = Inr (TEE_SUCCESS, s')"
    and n2: "new_trace ?s s' = ?blk"
    by blast
  note inst = fifo_little_endian [of ?s s1 "0x1000" TEE_SUCCESS s']
  from inst r1 obtain pre st w0 w1 w2 w3 where
    t: "new_trace ?s s1 = pre @ [Rd (rng ?s + RNG_STATUS) st,
                  Rd (rng ?s + RNG_OUTPUT_0) w0, Rd (rng ?s + RNG_OUTPUT_1) w1,
                  Rd (rng ?s + RNG_OUTPUT_2) w2, Rd (rng ?s + RNG_OUTPUT_3) w3,
                  Wr (rng ?s + RNG_INTACK) RNG_READY]"
    and f: "\<forall>k<4. \<forall>j<4. fifo s1 (4 * k + j) = ucast (drop_bit (8 * j) ([w0, w1, w2, w3] ! k))"
    by blast
  from block_tail_unique [OF t [unfolded n1, symmetric]] have "w2 = 0x0B0A0908"
    by simp
  moreover have "(2 :: nat) < 4" "(1 :: nat) < 4"
    by simp_all
  with f have "fifo s1 (4 * 2 + 1) = ucast (drop_bit (8 * 1) ([w0, w1, w2, w3] ! 2))"
    by blast
  ultimately have a: "fifo s1 (4 * 2 + 1) = 0x09"
    by simp
  from inst z r2 obtain pre' st' v0 v1 v2 v3 where
    t': "new_trace ?s s' = pre' @ [Rd (rng ?s + RNG_STATUS) st',
                  Rd (rng ?s + RNG_OUTPUT_0) v0, Rd (rng ?s + RNG_OUTPUT_1) v1,
                  Rd (rng ?s + RNG_OUTPUT_2) v2, Rd (rng ?s + RNG_OUTPUT_3) v3,
                  Wr (rng ?s + RNG_INTACK) RNG_READY]"
    and d: "v0 = 0x03020100 \<and> v1 = 0x07060504 \<and> v2 = 0x0B0A0908 \<and> v3 = 0x0F0E0D0C \<longrightarrow>
             delivered 0x1000 16 s' =
               [0x00, 0x01, 0x02, 0x03, 0x04, 0x05, 0x06, 0x07,
                0x08, 0x09, 0x0A, 0x0B, 0x0C, 0x0D, 0x0E, 0x0F]"
    by blast
  from block_tail_unique [OF t' [unfolded n2, symmetric]] d
  have "delivered 0x1000 16 s' =
               [0x00, 0x01, 0x02, 0x03, 0x04, 0x05, 0x06, 0x07,
                0x08, 0x09, 0x0A, 0x0B, 0x0C, 0x0D, 0x0E, 0x0F]"
    by blast
  with r1 a z r2 show ?thesis
    by blast
qed

end
